theory Spec2Isabelle
  imports Main "HOL-Library.AList"
begin

section \<open>Strings of the page and of the store\<close>

text \<open>
  A JavaScript string is a sequence of UTF-16 code units and \<open>length\<close> counts code
  units. The model takes a string as a \<open>char list\<close>: the code units 0..255, which
  hold every character the patterns of the source name (ASCII letters, digits, the
  line terminators LF and CR, the white space removed by \<open>trim\<close>).
\<close>

definition isUpperAlnum :: "char \<Rightarrow> bool" where
  \<comment> \<open>the character class \<open>[A-Z0-9]\<close>\<close>
  "isUpperAlnum c =
     (let n = (of_char c :: nat) in (65 \<le> n \<and> n \<le> 90) \<or> (48 \<le> n \<and> n \<le> 57))"

definition isDigit :: "char \<Rightarrow> bool" where
  \<comment> \<open>the character class \<open>\d\<close>\<close>
  "isDigit c = (let n = (of_char c :: nat) in 48 \<le> n \<and> n \<le> 57)"

definition isLineTerminator :: "char \<Rightarrow> bool" where
  \<comment> \<open>what \<open>.\<close> does not match: LF and CR (U+2028 and U+2029 are outside 0..255)\<close>
  "isLineTerminator c = (let n = (of_char c :: nat) in n = 10 \<or> n = 13)"

definition testUpperAlnum :: "string \<Rightarrow> bool" where
  \<comment> \<open>\<open>/^[A-Z0-9]+$/.test(s)\<close>\<close>
  "testUpperAlnum s = (s \<noteq> [] \<and> list_all isUpperAlnum s)"

fun firstSome :: "('a \<Rightarrow> 'b option) \<Rightarrow> 'a list \<Rightarrow> 'b option" where
  \<comment> \<open>the first alternative, in the order tried, that succeeds\<close>
  "firstSome f [] = None"
| "firstSome f (x # xs) = (case f x of Some y \<Rightarrow> Some y | None \<Rightarrow> firstSome f xs)"

section \<open>Identifier repair: \<open>fixCorruptedTransactionId\<close>\<close>

text \<open>
  The two anchored patterns of the source have one shape,
  \<open>^([A-Z0-9]{lo1,hi1})([A-Z0-9])\2{10,}([A-Z0-9]{lo3,hi3})$\<close>.
  A backtracking matcher tries, in this order: the longest first group first (the
  quantifier is greedy), then for the character that follows it the longest run of
  back-references first, down to ten; the third group must take all that is left,
  since the pattern is anchored at the end. The first alternative that succeeds
  gives the groups.
\<close>

definition runMatchAt :: "nat \<Rightarrow> nat \<Rightarrow> string \<Rightarrow> nat \<Rightarrow> (string \<times> char \<times> string) option" where
  "runMatchAt lo3 hi3 s p =
     (if p < length s \<and> list_all isUpperAlnum (take (Suc p) s) then
        (let c = s ! p;
             rest = drop (Suc p) s;
             n = length (takeWhile (\<lambda>x. x = c) rest)
         in case List.find
                   (\<lambda>k. lo3 \<le> length (drop k rest) \<and> length (drop k rest) \<le> hi3 \<and>
                        list_all isUpperAlnum (drop k rest))
                   (rev [10 ..< Suc n]) of
              None \<Rightarrow> None
            | Some k \<Rightarrow> Some (take p s, c, drop k rest))
      else None)"

definition runMatch :: "nat \<Rightarrow> nat \<Rightarrow> nat \<Rightarrow> nat \<Rightarrow> string \<Rightarrow> (string \<times> char \<times> string) option" where
  "runMatch lo1 hi1 lo3 hi3 s = firstSome (runMatchAt lo3 hi3 s) (rev [lo1 ..< Suc hi1])"

definition repeatedMatch :: "string \<Rightarrow> (string \<times> char \<times> string) option" where
  \<comment> \<open>\<open>rawId.match(/^([A-Z0-9]{3,6})([A-Z0-9])\2{10,}([A-Z0-9]{3,6})$/)\<close>\<close>
  "repeatedMatch = runMatch 3 6 3 6"

definition floodMatch :: "string \<Rightarrow> (string \<times> char \<times> string) option" where
  \<comment> \<open>\<open>rawId.match(/^([A-Z0-9]{1,3})([A-Z0-9])\2{10,}([A-Z0-9]{7,10})$/)\<close>\<close>
  "floodMatch = runMatch 1 3 7 10"

definition fromCharCodeMinus1 :: "char \<Rightarrow> char" where
  \<comment> \<open>\<open>String.fromCharCode(c.charCodeAt(0) - 1)\<close>\<close>
  "fromCharCodeMinus1 c = char_of ((of_char c :: int) - 1)"

definition pattern1 :: "string \<Rightarrow> string option" where
  \<comment> \<open>Pattern 1, repeated character: what it returns, \<open>None\<close> when control falls through\<close>
  "pattern1 rawId =
     (case repeatedMatch rawId of
        None \<Rightarrow> None
      | Some (prefix, repeatedChar, suffix) \<Rightarrow>
          if repeatedChar = CHR ''6'' \<and> prefix = ''EEP8'' \<and> suffix = ''NRJ4C''
          then Some ''EEP86556NRJ4C''
          else (let likelyChar = fromCharCodeMinus1 repeatedChar;
                    reconstructed = prefix @ [likelyChar] @ suffix
                in if length reconstructed = 13 \<and> testUpperAlnum reconstructed
                   then Some reconstructed else None))"

definition commonMiddles :: "string list" where
  "commonMiddles = [''61C'', ''556'', ''86'', ''123'', ''001'', ''999'']"

definition pattern2 :: "string \<Rightarrow> string option" where
  \<comment> \<open>Pattern 2, character flooding\<close>
  "pattern2 rawId =
     (case floodMatch rawId of
        None \<Rightarrow> None
      | Some (prefix, repeatedChar, suffix) \<Rightarrow>
          (let neededLength = 13 - int (length prefix) - int (length suffix)
           in firstSome
                (\<lambda>middle.
                   if int (length middle) = neededLength
                   then (let reconstructed = prefix @ middle @ suffix
                         in if length reconstructed = 13 then Some reconstructed else None)
                   else None)
                commonMiddles))"

definition pattern3 :: "string \<Rightarrow> string option" where
  \<comment> \<open>Pattern 3, leading zeros: \<open>/^0{6,}/\<close>, then \<open>replace(/^0+/, '08')\<close>\<close>
  "pattern3 rawId =
     (if 6 \<le> length rawId \<and> list_all (\<lambda>c. c = CHR ''0'') (take 6 rawId) then
        (let cleaned = ''08'' @ dropWhile (\<lambda>c. c = CHR ''0'') rawId
         in if length cleaned = 13 then Some cleaned else None)
      else None)"

fun matchAll13 :: "string \<Rightarrow> string list" where
  \<comment> \<open>\<open>s.match(/[A-Z0-9]{13}/g)\<close>: the matches from left to right, none overlapping;
      the empty list stands for \<open>null\<close>\<close>
  "matchAll13 s =
     (if length s < 13 then []
      else if list_all isUpperAlnum (take 13 s) then take 13 s # matchAll13 (drop 13 s)
      else matchAll13 (tl s))"

declare matchAll13.simps [simp del]

fun hasRepeatedRun :: "string \<Rightarrow> bool" where
  \<comment> \<open>\<open>s.match(/(.)\1{5,}/)\<close> is not null: six equal characters in a row\<close>
  "hasRepeatedRun [] = False"
| "hasRepeatedRun (c # cs) =
     (if \<not> isLineTerminator c \<and> 5 \<le> length cs \<and> list_all (\<lambda>x. x = c) (take 5 cs)
      then True else hasRepeatedRun cs)"

definition firstWithoutRun :: "string list \<Rightarrow> string option" where
  \<comment> \<open>the loop \<open>for (const m of matches) if (!m.match(/(.)\1{5,}/)) return m\<close>\<close>
  "firstWithoutRun ms = List.find (\<lambda>m. \<not> hasRepeatedRun m) ms"

definition pattern4 :: "string \<Rightarrow> string option" where
  \<comment> \<open>Pattern 4, the first valid 13-character sequence\<close>
  "pattern4 rawId = firstWithoutRun (matchAll13 rawId)"

definition fixCorruptedTransactionId :: "string \<Rightarrow> string option" where
  "fixCorruptedTransactionId rawId =
     (if rawId = [] \<or> length rawId < 13 then None
      else case pattern1 rawId of Some r \<Rightarrow> Some r | None \<Rightarrow>
           (case pattern2 rawId of Some r \<Rightarrow> Some r | None \<Rightarrow>
           (case pattern3 rawId of Some r \<Rightarrow> Some r | None \<Rightarrow>
            pattern4 rawId)))"

section \<open>The store's run-length transform: \<open>compress\<close> and \<open>decompress\<close>\<close>

definition digitChar :: "nat \<Rightarrow> char" where
  "digitChar d = char_of (48 + d)"

fun showNat :: "nat \<Rightarrow> string" where
  \<comment> \<open>the decimal digits of a number, as template and \<open>JSON.stringify\<close> print it\<close>
  "showNat n = (if n < 10 then [digitChar n] else showNat (n div 10) @ [digitChar (n mod 10)])"

declare showNat.simps [simp del]

definition parseInt :: "string \<Rightarrow> int" where
  \<comment> \<open>\<open>parseInt\<close> of a non-empty string of decimal digits\<close>
  "parseInt ds = foldl (\<lambda>a c. 10 * a + (of_char c - 48)) 0 ds"

text \<open>
  \<open>data.replace(/(.)\1+/g, f)\<close>: from left to right, a character other than a line
  terminator that is followed by itself starts a match, which is the whole run
  (the quantifier is greedy); \<open>f\<close> writes a run of more than three as the character,
  the length, the character, and leaves a shorter run as it is. The search goes on
  after the run. Every other character is copied.
\<close>

function compressRuns :: "string \<Rightarrow> string" where
  "compressRuns [] = []"
| "compressRuns (c # cs) =
     (let run = takeWhile (\<lambda>x. x = c) cs in
        if \<not> isLineTerminator c \<and> run \<noteq> [] then
          (if 3 < Suc (length run) then c # showNat (Suc (length run)) @ [c] else c # run)
            @ compressRuns (dropWhile (\<lambda>x. x = c) cs)
        else c # compressRuns cs)"
  by pat_completeness auto
termination
  by (relation "measure length") (auto simp: length_dropWhile_le le_imp_less_Suc)

definition compress :: "bool \<Rightarrow> string \<Rightarrow> string" where
  \<comment> \<open>the first argument is \<open>this.options.enableCompression\<close>\<close>
  "compress enableCompression data = (if \<not> enableCompression then data else compressRuns data)"

text \<open>
  \<open>data.replace(/(.)\d+\1/g, g)\<close>: from left to right, a character \<open>c\<close> other than a
  line terminator starts a match when it is followed by one digit or more and then by
  \<open>c\<close> again; \<open>\d+\<close> is greedy, so the longest run of digits that \<open>c\<close> follows is tried
  first. \<open>g\<close> writes \<open>c\<close> as many times as \<open>parseInt\<close> of the digits says (the count is a
  natural number here, and a string has no maximal length). The search goes on after
  the match; every other character is copied.
\<close>

definition digitsBefore :: "char \<Rightarrow> string \<Rightarrow> nat option" where
  \<comment> \<open>how many digits \<open>\d+\<close> takes in \<open>cs\<close> so that \<open>c\<close> follows them\<close>
  "digitsBefore c cs =
     List.find (\<lambda>k. k < length cs \<and> cs ! k = c) (rev [1 ..< Suc (length (takeWhile isDigit cs))])"

function expandRuns :: "string \<Rightarrow> string" where
  "expandRuns [] = []"
| "expandRuns (c # cs) =
     (case (if isLineTerminator c then None else digitsBefore c cs) of
        Some k \<Rightarrow> replicate (nat (parseInt (take k cs))) c @ expandRuns (drop (Suc k) cs)
      | None \<Rightarrow> c # expandRuns cs)"
  by pat_completeness auto
termination
  by (relation "measure length") auto

definition decompress :: "bool \<Rightarrow> string \<Rightarrow> string" where
  "decompress enableCompression data = (if \<not> enableCompression then data else expandRuns data)"

section \<open>The page extractor: \<open>extractTransactionDataFromPage\<close>\<close>

record transaction =
  customer :: string
  date :: string
  amount :: string
  transactionId :: string

text \<open>
  The extractor reads the page through selector queries only. A DOM snapshot is taken
  as what those queries answer: the containers \<open>div.sc-ijXkgg.ewERsg\<close> in document
  order, and for each container the elements its own queries find. \<open>None\<close> stands
  for \<open>null\<close> and \<open>undefined\<close>.
\<close>

record anchor =
  href :: "string option"          \<comment> \<open>\<open>getAttribute('href')\<close>\<close>
  linkText :: "string option"      \<comment> \<open>\<open>textContent\<close>\<close>
  innerText :: "string option"     \<comment> \<open>\<open>innerText\<close>\<close>
  textNodes :: "string list"       \<comment> \<open>the text nodes below the element, as the tree walker visits them\<close>
  dataId :: "string option"        \<comment> \<open>\<open>getAttribute('data-id')\<close>\<close>
  idAttr :: "string option"        \<comment> \<open>\<open>getAttribute('id')\<close>\<close>
  valueAttr :: "string option"     \<comment> \<open>\<open>getAttribute('value')\<close>\<close>

record container =
  subtitles :: "string option list"
    \<comment> \<open>\<open>querySelectorAll("p.sc-kAFUCS.kxJkvp[type='subtitle']")\<close>: the \<open>textContent\<close> of each\<close>
  success :: "string option option"
    \<comment> \<open>\<open>querySelector("p.sc-dibcMh.bnjRCI[type='success']")\<close>: the element's \<open>textContent\<close>\<close>
  link :: "anchor option"
    \<comment> \<open>\<open>querySelector('a.sc-goYhtw.bhMCZg')\<close>\<close>
  containerText :: "string option"
    \<comment> \<open>\<open>container.textContent\<close>\<close>

type_synonym document = "container list"

definition isWhiteSpace :: "char \<Rightarrow> bool" where
  \<comment> \<open>what \<open>trim\<close> removes: TAB, LF, VT, FF, CR, space, NBSP\<close>
  "isWhiteSpace c = (let n = (of_char c :: nat) in (9 \<le> n \<and> n \<le> 13) \<or> n = 32 \<or> n = 160)"

definition trim :: "string \<Rightarrow> string" where
  "trim s = rev (dropWhile isWhiteSpace (rev (dropWhile isWhiteSpace s)))"

definition orElse :: "string option \<Rightarrow> string \<Rightarrow> string" where
  \<comment> \<open>\<open>x || d\<close> for a string \<open>x\<close> that may be \<open>undefined\<close>: the empty string is falsy\<close>
  "orElse x d = (case x of None \<Rightarrow> d | Some s \<Rightarrow> if s = [] then d else s)"

definition trimmedTextAt :: "string option list \<Rightarrow> nat \<Rightarrow> string option" where
  \<comment> \<open>\<open>els[i]?.textContent?.trim()\<close>\<close>
  "trimmedTextAt els i = (if i < length els then map_option trim (els ! i) else None)"

definition firstMatch13 :: "string \<Rightarrow> string option" where
  \<comment> \<open>\<open>s.match(/([A-Z0-9]{13})/)\<close>: the leftmost match\<close>
  "firstMatch13 s = (case matchAll13 s of [] \<Rightarrow> None | m # ms \<Rightarrow> Some m)"

definition orAttr :: "string option \<Rightarrow> string option \<Rightarrow> string option" where
  \<comment> \<open>\<open>x || y\<close> on attribute values\<close>
  "orAttr x y = (case x of None \<Rightarrow> y | Some s \<Rightarrow> if s = [] then y else Some s)"

definition extractionMethods :: "anchor \<Rightarrow> string option list" where
  \<comment> \<open>what the four extraction methods return, in the order they are tried\<close>
  "extractionMethods a =
     [map_option trim (linkText a),
      map_option trim (innerText a),
      Some (trim (concat (textNodes a))),
      orAttr (dataId a) (orAttr (idAttr a) (valueAttr a))]"

definition tryMethod :: "string option \<Rightarrow> string option" where
  \<comment> \<open>one turn of the loop over the methods, on what the method returned: the identifier
      it assigns before \<open>break\<close>, \<open>None\<close> when the loop goes on\<close>
  "tryMethod extracted =
     (case extracted of
        None \<Rightarrow> None
      | Some extractedText \<Rightarrow>
          if extractedText = [] then None
          else if length extractedText = 13 \<and> testUpperAlnum extractedText
               then Some extractedText
          else (case fixCorruptedTransactionId extractedText of
                  None \<Rightarrow> None
                | Some cleanId \<Rightarrow> if cleanId = [] then None else Some cleanId))"

fun tryMethods :: "string option list \<Rightarrow> string" where
  \<comment> \<open>the loop over the methods; \<open>N/A\<close> is the value \<open>transactionId\<close> keeps when none succeeds\<close>
  "tryMethods [] = ''N/A''"
| "tryMethods (m # ms) =
     (case tryMethod m of
        None \<Rightarrow> tryMethods ms
      | Some cleanId \<Rightarrow> cleanId)"

definition extractTransactionId :: "container \<Rightarrow> string" where
  "extractTransactionId c =
     (case link c of
        None \<Rightarrow> ''N/A''
      | Some transactionElement \<Rightarrow>
          (let hrefText = orElse (href transactionElement) [];
               id1 = (if hrefText = [] then ''N/A''
                      else case firstMatch13 hrefText of None \<Rightarrow> ''N/A'' | Some m \<Rightarrow> m);
               id2 = (if id1 = ''N/A'' then tryMethods (extractionMethods transactionElement)
                      else id1);
               id3 = (if id2 = ''N/A''
                      then (case firstWithoutRun (matchAll13 (orElse (containerText c) [])) of
                              None \<Rightarrow> id2 | Some i \<Rightarrow> i)
                      else id2)
           in id3))"

definition extractContainer :: "container \<Rightarrow> transaction" where
  \<comment> \<open>the body of the \<open>map\<close> callback\<close>
  "extractContainer c =
     \<lparr> customer = orElse (trimmedTextAt (subtitles c) 0) ''No customer selected'',
       date = orElse (trimmedTextAt (subtitles c) 1) ''N/A'',
       amount = orElse (case success c of None \<Rightarrow> None | Some t \<Rightarrow> map_option trim t) ''N/A'',
       transactionId = extractTransactionId c \<rparr>"

definition extractTransactionDataFromPage :: "document \<Rightarrow> transaction list" where
  "extractTransactionDataFromPage containers = map extractContainer containers"

section \<open>The extraction orchestrator: \<open>extractTransactionData\<close>\<close>

record tab =
  tab_id :: "int option"
  tab_url :: "string option"
  tab_title :: "string option"

datatype error =
    NoSuitableTab          \<comment> \<open>\<open>Error('No suitable tab found for data extraction')\<close>\<close>
  | HostFailure string     \<comment> \<open>a rejection by the browser's own API\<close>

text \<open>
  The browser: the query string of the window's location, the answers of
  \<open>chrome.tabs.query\<close> to the two queries the code makes, and for a tab id the
  documents the injected function runs in, one per injection result, or a rejection.
\<close>

record browser =
  location_search :: string
  tabs_all :: "error + tab list"
  tabs_active_current :: "error + tab list"
  frames_of :: "int \<Rightarrow> error + document option list"

fun strIncludes :: "string \<Rightarrow> string \<Rightarrow> bool" where
  \<comment> \<open>\<open>s.includes(sub)\<close>\<close>
  "strIncludes [] sub = (sub = [])"
| "strIncludes (c # cs) sub = (if take (length sub) (c # cs) = sub then True else strIncludes cs sub)"

definition startsWith :: "string \<Rightarrow> string \<Rightarrow> bool" where
  "startsWith s p = (take (length p) s = p)"

definition toLowerChar :: "char \<Rightarrow> char" where
  "toLowerChar c =
     (let n = (of_char c :: nat)
      in if (65 \<le> n \<and> n \<le> 90) \<or> (192 \<le> n \<and> n \<le> 222 \<and> n \<noteq> 215) then char_of (n + 32) else c)"

definition toLowerCase :: "string \<Rightarrow> string" where
  "toLowerCase s = map toLowerChar s"

definition isPayTrackerTab :: "tab \<Rightarrow> bool" where
  \<comment> \<open>the callback of \<open>allTabs.find\<close>\<close>
  "isPayTrackerTab t =
     (case tab_url t of
        None \<Rightarrow> False
      | Some u \<Rightarrow>
          if u = [] then False
          else if strIncludes u ''paytracker'' then True
          else if strIncludes u ''app.'' then True
          else (case tab_title t of None \<Rightarrow> False
                | Some ti \<Rightarrow> strIncludes (toLowerCase ti) ''paytracker''))"

definition isRegularTab :: "tab \<Rightarrow> bool" where
  \<comment> \<open>the callback of \<open>allTabs.filter\<close>\<close>
  "isRegularTab t =
     (case tab_url t of
        None \<Rightarrow> False
      | Some u \<Rightarrow> if u = [] then False else \<not> startsWith u ''chrome-extension://'')"

definition lastOption :: "'a list \<Rightarrow> 'a option" where
  \<comment> \<open>\<open>xs[xs.length - 1]\<close>\<close>
  "lastOption xs = (if xs = [] then None else Some (last xs))"

definition resolveTab :: "browser \<Rightarrow> error + tab option" where
  \<comment> \<open>the value of \<open>tab\<close> before it is tested\<close>
  "resolveTab b =
     (if strIncludes (location_search b) ''detached=true'' then
        (case tabs_all b of
           Inl e \<Rightarrow> Inl e
         | Inr allTabs \<Rightarrow>
             (case List.find isPayTrackerTab allTabs of
                Some t \<Rightarrow> Inr (Some t)
              | None \<Rightarrow> Inr (lastOption (filter isRegularTab allTabs))))
      else
        (case tabs_active_current b of
           Inl e \<Rightarrow> Inl e
         | Inr ts \<Rightarrow> Inr (case ts of [] \<Rightarrow> None | activeTab # rest \<Rightarrow> Some activeTab)))"

definition usableId :: "tab option \<Rightarrow> int option" where
  \<comment> \<open>\<open>tab?.id\<close> when it is truthy: an id that is present and not 0\<close>
  "usableId t =
     (case t of
        None \<Rightarrow> None
      | Some x \<Rightarrow> (case tab_id x of None \<Rightarrow> None | Some i \<Rightarrow> if i = 0 then None else Some i))"

definition extractTransactionData :: "browser \<Rightarrow> error + transaction list" where
  "extractTransactionData b =
     (case resolveTab b of
        Inl e \<Rightarrow> Inl e
      | Inr t \<Rightarrow>
          (case usableId t of
             None \<Rightarrow> Inl NoSuitableTab
           | Some i \<Rightarrow>
               (case frames_of b i of
                  Inl e \<Rightarrow> Inl e
                | Inr results \<Rightarrow>
                    Inr (case results of
                           [] \<Rightarrow> []
                         | r # rest \<Rightarrow>
                             (case r of None \<Rightarrow> []
                              | Some doc \<Rightarrow> extractTransactionDataFromPage doc)))))"

text \<open>
  A page of three containers: a clean identifier, an identifier corrupted into a run
  that the repair recovers, and text that nothing recovers.
\<close>

definition plainAnchor :: "string \<Rightarrow> anchor" where
  \<comment> \<open>a link without \<open>href\<close> and attributes, whose text is one text node\<close>
  "plainAnchor t =
     \<lparr> href = None, linkText = Some t, innerText = Some t, textNodes = [t],
       dataId = None, idAttr = None, valueAttr = None \<rparr>"

definition examplePage :: document where
  "examplePage =
     [ \<lparr> subtitles = [Some ''  John Doe '', Some ''11/02/2026''],
         success = Some (Some ''$25.00''),
         link = Some (plainAnchor ''XK4PD2M9QW7TZ''),
         containerText = Some ''John Doe 11/02/2026 $25.00 XK4PD2M9QW7TZ'' \<rparr>,
       \<lparr> subtitles = [],
         success = None,
         link = Some (plainAnchor (''ABCDEF'' @ replicate 11 CHR ''7'' @ ''GHIJKL'')),
         containerText = Some (''ABCDEF'' @ replicate 11 CHR ''7'' @ ''GHIJKL'') \<rparr>,
       \<lparr> subtitles = [Some ''Jane Smith''],
         success = Some (Some ''   ''),
         link = Some (plainAnchor ''#-?-#''),
         containerText = Some ''Jane Smith #-?-#'' \<rparr> ]"

text \<open>
  A page of five containers whose link text is garbled: the identifier is in the
  \<open>href\<close>; in the \<open>data-id\<close> attribute; in the text of the container only, behind a
  run of one letter; nowhere; and a container that has the identifier in its text
  but no link.
\<close>

definition garbledAnchor :: anchor where
  "garbledAnchor =
     \<lparr> href = None, linkText = Some (replicate 14 CHR ''!''),
       innerText = Some (replicate 14 CHR ''!''), textNodes = [replicate 14 CHR ''!''],
       dataId = None, idAttr = None, valueAttr = None \<rparr>"

definition fallbackPage :: document where
  "fallbackPage =
     [ \<lparr> subtitles = [Some ''Ann Lee'', Some ''Nov 2''],
         success = Some (Some ''$7.50''),
         link = Some (garbledAnchor \<lparr> href := Some ''/transactions/XK4PD2M9QW7TZ?tab=1'' \<rparr>),
         containerText = Some ''Ann Lee Nov 2 $7.50 !!!!!!!!!!!!!!'' \<rparr>,
       \<lparr> subtitles = [None, Some '' ''],
         success = Some None,
         link = Some (garbledAnchor \<lparr> dataId := Some ''BC61CZCMFPEGG'' \<rparr>),
         containerText = Some ''!!!!!!!!!!!!!!'' \<rparr>,
       \<lparr> subtitles = [Some ''Bo Chen''],
         success = Some (Some ''$1.00''),
         link = Some (garbledAnchor \<lparr> href := Some ''#details'' \<rparr>),
         containerText = Some ''Bo Chen $1.00 !!!!!!!!!!!!!! AAAAAAAAAAAAA 0807XV6ZZKSM0'' \<rparr>,
       \<lparr> subtitles = [Some ''Cy Diaz'', Some ''Nov 3''],
         success = Some (Some ''$2.00''),
         link = Some garbledAnchor,
         containerText = Some ''Cy Diaz Nov 3 $2.00 !!!!!!!!!!!!!!'' \<rparr>,
       \<lparr> subtitles = [Some ''Di Evans'', Some ''Nov 4''],
         success = Some (Some ''$3.00''),
         link = None,
         containerText = Some ''Di Evans Nov 4 $3.00 EEP86556NRJ4C'' \<rparr> ]"

definition noFrames :: "int \<Rightarrow> error + document option list" where
  "noFrames i = Inr []"

definition embeddedNoTab :: browser where
  \<comment> \<open>the popup, and the query for the active tab answers no tab\<close>
  "embeddedNoTab =
     \<lparr> location_search = [], tabs_all = Inr [], tabs_active_current = Inr [],
       frames_of = noFrames \<rparr>"

definition detachedNoTab :: browser where
  \<comment> \<open>the detached window, and the only open tab is the extension's own page\<close>
  "detachedNoTab =
     \<lparr> location_search = ''?detached=true'',
       tabs_all = Inr [\<lparr> tab_id = Some 7,
                         tab_url = Some ''chrome-extension://abcdefgh/index.html?detached=true'',
                         tab_title = Some ''Transactions'' \<rparr>],
       tabs_active_current = Inr [],
       frames_of = noFrames \<rparr>"

section \<open>The cache: \<open>TransactionCache\<close>\<close>

subsection \<open>\<open>JSON.stringify\<close> and \<open>JSON.parse\<close> on what the cache stores\<close>

text \<open>
  The payload of the cache is a list of transactions. \<open>JSON.stringify\<close> writes the
  properties of an object in the order they were created, without white space.
  Numbers are integers here (time stamps in milliseconds): the parser reads decimal
  digits with an optional minus sign, no fraction and no exponent, and keeps every
  digit.
  The source holds a number as a double, which is the same number up to \<open>2^53\<close> and
  the nearest double above (1777777777002233344 for the digits 1777777777002233445).
\<close>

definition dquote :: char where
  "dquote = CHR 0x22"

definition backslash :: char where
  "backslash = CHR 0x5C"

definition hexDigit :: "nat \<Rightarrow> char" where
  "hexDigit d = (if d < 10 then char_of (48 + d) else char_of (87 + d))"

definition quoteChar :: "char \<Rightarrow> string" where
  \<comment> \<open>one code unit inside a JSON string\<close>
  "quoteChar c =
     (let n = (of_char c :: nat) in
        if n = 34 then [backslash, dquote]
        else if n = 92 then [backslash, backslash]
        else if n = 8 then [backslash, CHR ''b'']
        else if n = 9 then [backslash, CHR ''t'']
        else if n = 10 then [backslash, CHR ''n'']
        else if n = 12 then [backslash, CHR ''f'']
        else if n = 13 then [backslash, CHR ''r'']
        else if n < 32 then [backslash, CHR ''u'', CHR ''0'', CHR ''0'',
                             hexDigit (n div 16), hexDigit (n mod 16)]
        else [c])"

definition quoteJSONString :: "string \<Rightarrow> string" where
  "quoteJSONString s = dquote # concat (map quoteChar s) @ [dquote]"

definition jsonProperty :: "string \<Rightarrow> string \<Rightarrow> string" where
  \<comment> \<open>a property name, a colon, the text of its value\<close>
  "jsonProperty k v = quoteJSONString k @ '':'' @ v"

fun joinWith :: "string \<Rightarrow> string list \<Rightarrow> string" where
  "joinWith sep [] = []"
| "joinWith sep [x] = x"
| "joinWith sep (x # y # ys) = x @ sep @ joinWith sep (y # ys)"

function showDigits :: "int \<Rightarrow> string" where
  \<comment> \<open>the decimal digits of a number that is not negative\<close>
  "showDigits i =
     (if i < 10 then [digitChar (nat i)]
      else showDigits (i div 10) @ [digitChar (nat (i mod 10))])"
  by pat_completeness auto
termination
  by (relation "measure nat") auto

declare showDigits.simps [simp del]

definition showInt :: "int \<Rightarrow> string" where
  "showInt i = (if i < 0 then ''-'' @ showDigits (- i) else showDigits i)"

definition stringifyTransaction :: "transaction \<Rightarrow> string" where
  "stringifyTransaction t =
     ''{'' @ joinWith '',''
       [jsonProperty ''customer'' (quoteJSONString (customer t)),
        jsonProperty ''date'' (quoteJSONString (date t)),
        jsonProperty ''amount'' (quoteJSONString (amount t)),
        jsonProperty ''transactionId'' (quoteJSONString (transactionId t))] @ ''}''"

definition stringifyData :: "transaction list \<Rightarrow> string" where
  \<comment> \<open>\<open>JSON.stringify(data)\<close>\<close>
  "stringifyData ts = ''['' @ joinWith '','' (map stringifyTransaction ts) @ '']''"

definition stringifyEntry :: "transaction list \<Rightarrow> int \<Rightarrow> string \<Rightarrow> string \<Rightarrow> string" where
  \<comment> \<open>\<open>JSON.stringify(entry)\<close> for the entry \<open>{data, timestamp, url, hash}\<close> that \<open>set\<close> builds\<close>
  "stringifyEntry d ts u h =
     ''{'' @ joinWith '',''
       [jsonProperty ''data'' (stringifyData d),
        jsonProperty ''timestamp'' (showInt ts),
        jsonProperty ''url'' (quoteJSONString u),
        jsonProperty ''hash'' (quoteJSONString h)] @ ''}''"

datatype json =
    JNull
  | JBool bool
  | JNum int
  | JStr string
  | JArr "json list"
  | JObj "(string \<times> json) list"

definition isJsonSpace :: "char \<Rightarrow> bool" where
  "isJsonSpace c = (let n = (of_char c :: nat) in n = 32 \<or> n = 9 \<or> n = 10 \<or> n = 13)"

definition skipWs :: "string \<Rightarrow> string" where
  "skipWs s = dropWhile isJsonSpace s"

definition hexValue :: "char \<Rightarrow> nat option" where
  "hexValue c =
     (let n = (of_char c :: nat) in
        if 48 \<le> n \<and> n \<le> 57 then Some (n - 48)
        else if 97 \<le> n \<and> n \<le> 102 then Some (n - 87)
        else if 65 \<le> n \<and> n \<le> 70 then Some (n - 55)
        else None)"

definition hex4 :: "string \<Rightarrow> nat option" where
  \<comment> \<open>the number that four hexadecimal digits write\<close>
  "hex4 s =
     (if length s = 4 then
        foldl (\<lambda>a c. case a of None \<Rightarrow> None
                       | Some n \<Rightarrow> map_option (\<lambda>d. 16 * n + d) (hexValue c)) (Some 0) s
      else None)"

definition unescape :: "char \<Rightarrow> char option" where
  \<comment> \<open>the character that follows a backslash, \<open>u\<close> apart\<close>
  "unescape e =
     (if e = dquote then Some dquote
      else if e = backslash then Some backslash
      else if e = CHR ''/'' then Some (CHR ''/'')
      else if e = CHR ''b'' then Some (char_of (8::nat))
      else if e = CHR ''f'' then Some (char_of (12::nat))
      else if e = CHR ''n'' then Some (char_of (10::nat))
      else if e = CHR ''r'' then Some (char_of (13::nat))
      else if e = CHR ''t'' then Some (char_of (9::nat))
      else None)"

definition consResult :: "char \<Rightarrow> (string \<times> string) option \<Rightarrow> (string \<times> string) option" where
  "consResult c r = (case r of None \<Rightarrow> None | Some (t, rest) \<Rightarrow> Some (c # t, rest))"

function parseStringChars :: "string \<Rightarrow> (string \<times> string) option" where
  \<comment> \<open>the characters of a JSON string after its opening quote, and the text after its
      closing quote; a code unit above 255 is outside the strings of the model\<close>
  "parseStringChars [] = None"
| "parseStringChars (c # cs) =
     (if c = dquote then Some ([], cs)
      else if c = backslash then
        (case cs of
           [] \<Rightarrow> None
         | e # r \<Rightarrow>
             if e = CHR ''u'' then
               (case hex4 (take 4 r) of
                  None \<Rightarrow> None
                | Some n \<Rightarrow> if n < 256 then consResult (char_of n) (parseStringChars (drop 4 r))
                            else None)
             else (case unescape e of
                     None \<Rightarrow> None
                   | Some ch \<Rightarrow> consResult ch (parseStringChars r)))
      else if (of_char c :: nat) < 32 then None
      else consResult c (parseStringChars cs))"
  by pat_completeness auto
termination
  by (relation "measure length") (auto simp: le_imp_less_Suc)

definition parseNumber :: "string \<Rightarrow> (int \<times> string) option" where
  \<comment> \<open>a JSON integer: an optional minus sign, then \<open>0\<close> or digits that do not start
      with \<open>0\<close>; a fraction or an exponent is outside the numbers of the model\<close>
  "parseNumber s =
     (let neg = (s \<noteq> [] \<and> hd s = CHR ''-'');
          body = (if neg then tl s else s);
          ds = (if body \<noteq> [] \<and> hd body = CHR ''0'' then ''0'' else takeWhile isDigit body);
          rest = drop (length ds) body
      in if ds = [] then None
         else if rest \<noteq> [] \<and> (hd rest = CHR ''.'' \<or> hd rest = CHR ''e'' \<or> hd rest = CHR ''E'')
           then None
         else Some ((if neg then - parseInt ds else parseInt ds), rest))"

definition withResult :: "('a \<Rightarrow> 'b) \<Rightarrow> ('a \<times> string) option \<Rightarrow> ('b \<times> string) option" where
  "withResult f r = (case r of None \<Rightarrow> None | Some (x, rest) \<Rightarrow> Some (f x, rest))"

text \<open>
  The parser descends with a counter that bounds the depth of its calls; two calls
  at most read no character, so twice the length of the text is enough.
\<close>

fun parseValue :: "nat \<Rightarrow> string \<Rightarrow> (json \<times> string) option"
  and parseElements :: "nat \<Rightarrow> string \<Rightarrow> (json list \<times> string) option"
  and parseMembers :: "nat \<Rightarrow> string \<Rightarrow> ((string \<times> json) list \<times> string) option"
where
  "parseValue 0 s = None"
| "parseValue (Suc n) s =
     (case skipWs s of
        [] \<Rightarrow> None
      | c # cs \<Rightarrow>
          if c = CHR ''{'' then
            (case skipWs cs of
               [] \<Rightarrow> None
             | c' # cs' \<Rightarrow> if c' = CHR ''}'' then Some (JObj [], cs')
                           else withResult JObj (parseMembers n (c' # cs')))
          else if c = CHR ''['' then
            (case skipWs cs of
               [] \<Rightarrow> None
             | c' # cs' \<Rightarrow> if c' = CHR '']'' then Some (JArr [], cs')
                           else withResult JArr (parseElements n (c' # cs')))
          else if c = dquote then withResult JStr (parseStringChars cs)
          else if take 4 (c # cs) = ''true'' then Some (JBool True, drop 4 (c # cs))
          else if take 5 (c # cs) = ''false'' then Some (JBool False, drop 5 (c # cs))
          else if take 4 (c # cs) = ''null'' then Some (JNull, drop 4 (c # cs))
          else withResult JNum (parseNumber (c # cs)))"
| "parseElements 0 s = None"
| "parseElements (Suc n) s =
     (case parseValue n s of
        None \<Rightarrow> None
      | Some (v, r) \<Rightarrow>
          (case skipWs r of
             [] \<Rightarrow> None
           | c # cs \<Rightarrow>
               if c = CHR '','' then withResult (\<lambda>vs. v # vs) (parseElements n cs)
               else if c = CHR '']'' then Some ([v], cs)
               else None))"
| "parseMembers 0 s = None"
| "parseMembers (Suc n) s =
     (case skipWs s of
        [] \<Rightarrow> None
      | c # cs \<Rightarrow>
          if c = dquote then
            (case parseStringChars cs of
               None \<Rightarrow> None
             | Some (k, r) \<Rightarrow>
                 (case skipWs r of
                    [] \<Rightarrow> None
                  | c2 # r2 \<Rightarrow>
                      if c2 = CHR '':'' then
                        (case parseValue n r2 of
                           None \<Rightarrow> None
                         | Some (v, r3) \<Rightarrow>
                             (case skipWs r3 of
                                [] \<Rightarrow> None
                              | c3 # r4 \<Rightarrow>
                                  if c3 = CHR '','' then
                                    withResult (\<lambda>ms. (k, v) # ms) (parseMembers n r4)
                                  else if c3 = CHR ''}'' then Some ([(k, v)], r4)
                                  else None))
                      else None))
          else None)"

definition JSON_parse :: "string \<Rightarrow> json option" where
  \<comment> \<open>\<open>None\<close> is the \<open>SyntaxError\<close>\<close>
  "JSON_parse s =
     (case parseValue (2 * length s + 2) s of
        None \<Rightarrow> None
      | Some (v, rest) \<Rightarrow> if skipWs rest = [] then Some v else None)"

definition property :: "(string \<times> json) list \<Rightarrow> string \<Rightarrow> json option" where
  \<comment> \<open>the value of a property; of two properties of one name the later wins\<close>
  "property ms k = map_of (rev ms) k"

definition stringProperty :: "(string \<times> json) list \<Rightarrow> string \<Rightarrow> string option" where
  "stringProperty ms k = (case property ms k of Some (JStr s) \<Rightarrow> Some s | _ \<Rightarrow> None)"

definition decodeTransaction :: "json \<Rightarrow> transaction option" where
  "decodeTransaction j =
     (case j of
        JObj ms \<Rightarrow>
          (case (stringProperty ms ''customer'', stringProperty ms ''date'',
                 stringProperty ms ''amount'', stringProperty ms ''transactionId'') of
             (Some c, Some d, Some a, Some i) \<Rightarrow>
               Some \<lparr> customer = c, date = d, amount = a, transactionId = i \<rparr>
           | _ \<Rightarrow> None)
      | _ \<Rightarrow> None)"

definition optionalString :: "json option \<Rightarrow> string option option" where
  \<comment> \<open>an optional property of type string: absent, a string, or of another type\<close>
  "optionalString j =
     (case j of None \<Rightarrow> Some None | Some (JStr s) \<Rightarrow> Some (Some s) | _ \<Rightarrow> None)"

text \<open>
  \<open>const entry: CacheEntry<T> = JSON.parse(text)\<close>. The annotation is taken at its
  word: a text that is no JSON, or whose value is not an entry over a list of
  transactions, does not decode. The source throws on the first only; on a JSON
  value of another shape it goes on with that value (in \<open>cleanup\<close> such a key is
  kept, since a missing time stamp is never expired). The callers of the cache
  store lists of transactions only.
\<close>

definition decodeEntry ::
  "string \<Rightarrow> (transaction list \<times> int \<times> string option \<times> string option) option" where
  "decodeEntry s =
     (case JSON_parse s of
        Some (JObj ms) \<Rightarrow>
          (case (property ms ''data'', property ms ''timestamp'',
                 optionalString (property ms ''url''), optionalString (property ms ''hash'')) of
             (Some (JArr xs), Some (JNum t), Some u, Some h) \<Rightarrow>
               (case those (map decodeTransaction xs) of
                  None \<Rightarrow> None
                | Some d \<Rightarrow> Some (d, t, u, h))
           | _ \<Rightarrow> None)
      | _ \<Rightarrow> None)"

subsection \<open>The state of the cache and of its host\<close>

text \<open>
  The payload objects live in a heap, so that a reference can be told from a copy:
  \<open>heap\<close> maps an address to the list of transactions stored there, and the
  addresses below \<open>heapNext\<close> are the ones in use. \<open>memoryCache\<close> is the \<open>Map\<close> of the
  source in insertion order, \<open>storage\<close> is \<open>chrome.storage.local\<close> (the texts under
  the keys of this cache), with its keys in the order they were first written.
\<close>

record cacheEntry =
  data :: nat
  timestamp :: int
  url :: "string option"
  hash :: "string option"

record cacheState =
  ttl :: int
  maxEntries :: nat
  enableCompression :: bool
  memoryCache :: "(string \<times> cacheEntry) list"
  storage :: "(string \<times> string) list"
  heap :: "nat \<Rightarrow> transaction list"
  heapNext :: nat

text \<open>
  What an operation reads from its surroundings: the clock (one reading for the
  whole operation), the URL of the active tab, if the browser tells it, and the URL
  parser of the host, \<open>new URL(u).pathname + new URL(u).search\<close>, which is \<open>None\<close>
  where the constructor throws.
\<close>

record env =
  date_now :: int
  active_tab_url :: "string option"
  url_pathname_search :: "string \<Rightarrow> string option"

record storageOptions =
  opt_ttl :: "int option"
  opt_maxEntries :: "nat option"
  opt_enableCompression :: "bool option"

definition defaultTTL :: int where
  "defaultTTL = 10 * 60 * 1000"

definition maxMemoryEntries :: nat where
  "maxMemoryEntries = 50"

definition storageKey :: string where
  "storageKey = ''paytracker_cache''"

definition newTransactionCache ::
  "storageOptions \<Rightarrow> (string \<times> string) list \<Rightarrow> (nat \<Rightarrow> transaction list) \<Rightarrow> nat \<Rightarrow> cacheState" where
  \<comment> \<open>the constructor, in a host with the given storage and heap\<close>
  "newTransactionCache options sto h n =
     \<lparr> ttl = (case opt_ttl options of None \<Rightarrow> defaultTTL
              | Some t \<Rightarrow> if t = 0 then defaultTTL else t),
       maxEntries = (case opt_maxEntries options of None \<Rightarrow> maxMemoryEntries
                     | Some m \<Rightarrow> if m = 0 then maxMemoryEntries else m),
       enableCompression = (case opt_enableCompression options of None \<Rightarrow> False | Some b \<Rightarrow> b),
       memoryCache = [],
       storage = sto,
       heap = h,
       heapNext = n \<rparr>"

definition transactionCache ::
  "(string \<times> string) list \<Rightarrow> (nat \<Rightarrow> transaction list) \<Rightarrow> nat \<Rightarrow> cacheState" where
  \<comment> \<open>the exported instance: \<open>new TransactionCache({maxEntries: 100, enableCompression: true})\<close>\<close>
  "transactionCache =
     newTransactionCache
       \<lparr> opt_ttl = None, opt_maxEntries = Some 100, opt_enableCompression = Some True \<rparr>"

definition effectiveTTL :: "cacheState \<Rightarrow> int" where
  \<comment> \<open>\<open>this.options.ttl || this.defaultTTL\<close>\<close>
  "effectiveTTL st = (if ttl st = 0 then defaultTTL else ttl st)"

definition effectiveMaxEntries :: "cacheState \<Rightarrow> nat" where
  \<comment> \<open>\<open>this.options.maxEntries || this.maxMemoryEntries\<close>\<close>
  "effectiveMaxEntries st = (if maxEntries st = 0 then maxMemoryEntries else maxEntries st)"

subsection \<open>Keys\<close>

definition toInt32 :: "int \<Rightarrow> int" where
  "toInt32 x = (x + 2 ^ 31) mod 2 ^ 32 - 2 ^ 31"

definition hashStep :: "int \<Rightarrow> char \<Rightarrow> int" where
  \<comment> \<open>\<open>hash = (hash << 5) - hash + char; hash = hash & hash\<close>\<close>
  "hashStep h c = toInt32 (toInt32 (h * 32) - h + int (of_char c))"

definition base36Digit :: "nat \<Rightarrow> char" where
  "base36Digit d = (if d < 10 then char_of (48 + d) else char_of (87 + d))"

function toBase36 :: "int \<Rightarrow> string" where
  \<comment> \<open>\<open>n.toString(36)\<close> for a number that is not negative\<close>
  "toBase36 n =
     (if n < 36 then [base36Digit (nat n)]
      else toBase36 (n div 36) @ [base36Digit (nat (n mod 36))])"
  by pat_completeness auto
termination
  by (relation "measure nat") auto

declare toBase36.simps [simp del]

definition generateContentHash :: "transaction list \<Rightarrow> string" where
  "generateContentHash d = toBase36 \<bar>foldl hashStep 0 (stringifyData d)\<bar>"

definition isAsciiAlnum :: "char \<Rightarrow> bool" where
  \<comment> \<open>the character class \<open>[a-zA-Z0-9]\<close>\<close>
  "isAsciiAlnum c =
     (let n = (of_char c :: nat)
      in (97 \<le> n \<and> n \<le> 122) \<or> (65 \<le> n \<and> n \<le> 90) \<or> (48 \<le> n \<and> n \<le> 57))"

definition withHash :: "string \<Rightarrow> string option \<Rightarrow> string" where
  \<comment> \<open>\<open>contentHash ? `${k}_${contentHash}` : k\<close>\<close>
  "withHash k contentHash =
     (case contentHash of None \<Rightarrow> k | Some h \<Rightarrow> if h = [] then k else k @ ''_'' @ h)"

definition generateKey :: "env \<Rightarrow> string \<Rightarrow> string option \<Rightarrow> string" where
  "generateKey e u contentHash =
     (case url_pathname_search e u of
        Some urlKey \<Rightarrow> withHash urlKey contentHash
      | None \<Rightarrow> withHash (map (\<lambda>c. if isAsciiAlnum c then c else CHR ''_'') u) contentHash)"

definition getCurrentUrl :: "env \<Rightarrow> string" where
  \<comment> \<open>\<open>tab.url || 'default'\<close>, and \<open>'default'\<close> when the browser does not answer\<close>
  "getCurrentUrl e = orElse (active_tab_url e) ''default''"

subsection \<open>Expiry and the memory tier\<close>

definition expiredAt :: "env \<Rightarrow> cacheState \<Rightarrow> int \<Rightarrow> bool" where
  \<comment> \<open>\<open>Date.now() - timestamp > (this.options.ttl || this.defaultTTL)\<close>\<close>
  "expiredAt e st ts = (date_now e - ts > effectiveTTL st)"

definition isExpired :: "env \<Rightarrow> cacheState \<Rightarrow> cacheEntry \<Rightarrow> bool" where
  "isExpired e st entry = expiredAt e st (timestamp entry)"

definition deleteKeys :: "string list \<Rightarrow> (string \<times> 'v) list \<Rightarrow> (string \<times> 'v) list" where
  \<comment> \<open>\<open>ks.forEach((k) => m.delete(k))\<close>\<close>
  "deleteKeys ks m = foldl (\<lambda>acc k. AList.delete k acc) m ks"

definition cleanupMemoryCache :: "env \<Rightarrow> cacheState \<Rightarrow> cacheState" where
  "cleanupMemoryCache e st =
     (let kept = filter (\<lambda>(k, entry). \<not> isExpired e st entry) (memoryCache st)
      in if effectiveMaxEntries st < length kept then
           (let entries = sort_key (\<lambda>(k, entry). timestamp entry) kept;
                toDelete = take (length entries - effectiveMaxEntries st) entries
            in st\<lparr> memoryCache := deleteKeys (map fst toDelete) kept \<rparr>)
         else st\<lparr> memoryCache := kept \<rparr>)"

subsection \<open>\<open>set\<close>, \<open>get\<close> and \<open>cleanup\<close>\<close>

definition truthy :: "string option \<Rightarrow> string option" where
  \<comment> \<open>an optional string argument that is given and not empty\<close>
  "truthy x = (case x of None \<Rightarrow> None | Some s \<Rightarrow> if s = [] then None else Some s)"

definition urlForSet :: "env \<Rightarrow> string option \<Rightarrow> string" where
  \<comment> \<open>\<open>url || (await this.getCurrentUrl()) || 'default'\<close>\<close>
  "urlForSet e urlArg =
     (case truthy urlArg of Some u \<Rightarrow> u | None \<Rightarrow> orElse (Some (getCurrentUrl e)) ''default'')"

definition set_cache :: "env \<Rightarrow> cacheState \<Rightarrow> nat \<Rightarrow> string option \<Rightarrow> cacheState" where
  \<comment> \<open>\<open>set(data, url)\<close>; \<open>dataRef\<close> is the address of the caller's \<open>data\<close>.
      \<open>JSON.parse(JSON.stringify(data))\<close> is a new object with the content of \<open>data\<close>.\<close>
  "set_cache e st dataRef urlArg =
     (let currentUrl = urlForSet e urlArg;
          d = heap st dataRef;
          contentHash = generateContentHash d;
          key = generateKey e currentUrl (Some contentHash);
          clone = heapNext st;
          entry = \<lparr> data = clone, timestamp = date_now e, url = Some currentUrl,
                    hash = Some contentHash \<rparr>;
          st1 = st\<lparr> heap := (heap st)(clone := d), heapNext := Suc clone,
                    memoryCache := AList.update key entry (memoryCache st) \<rparr>;
          st2 = cleanupMemoryCache e st1;
          compressedData = compress (enableCompression st)
                             (stringifyEntry d (date_now e) currentUrl contentHash)
      in st2\<lparr> storage :=
                AList.update (storageKey @ ''_latest'') compressedData
                  (AList.update (storageKey @ ''_'' @ key) compressedData (storage st2)) \<rparr>)"

definition getStorageKeys :: "cacheState \<Rightarrow> string list" where
  "getStorageKeys st = filter (\<lambda>k. startsWith k storageKey) (map fst (storage st))"

fun replaceFirst :: "string \<Rightarrow> string \<Rightarrow> string \<Rightarrow> string" where
  \<comment> \<open>\<open>s.replace(pat, rep)\<close> for a string pattern: the first occurrence only\<close>
  "replaceFirst pat rep [] = (if pat = [] then rep else [])"
| "replaceFirst pat rep (c # cs) =
     (if startsWith (c # cs) pat then rep @ drop (length pat) (c # cs)
      else c # replaceFirst pat rep cs)"

definition shouldCheck :: "string option \<Rightarrow> string \<Rightarrow> string \<Rightarrow> bool" where
  \<comment> \<open>\<open>url ? key.includes(currentUrl.split('?')[0]) : key.startsWith(this.storageKey)\<close>\<close>
  "shouldCheck urlArg currentUrl key =
     (case urlArg of
        Some u \<Rightarrow> strIncludes key (takeWhile (\<lambda>c. c \<noteq> CHR ''?'') currentUrl)
      | None \<Rightarrow> startsWith key storageKey)"

definition urlMatches :: "string option \<Rightarrow> string \<Rightarrow> string option \<Rightarrow> bool" where
  \<comment> \<open>\<open>entry.url === currentUrl || !url\<close>\<close>
  "urlMatches entryUrl currentUrl urlArg = (entryUrl = Some currentUrl \<or> urlArg = None)"

fun getFromStorage ::
  "env \<Rightarrow> cacheState \<Rightarrow> string option \<Rightarrow> string \<Rightarrow> string list \<Rightarrow> nat option \<times> cacheState" where
  \<comment> \<open>the loop of \<open>get\<close> over the keys of the persistent tier. A text that does not
      decode throws, and the handler around the loop makes \<open>get\<close> return \<open>null\<close>.\<close>
  "getFromStorage e st urlArg currentUrl [] = (None, st)"
| "getFromStorage e st urlArg currentUrl (key # keys) =
     (if shouldCheck urlArg currentUrl key then
        (case map_of (storage st) key of
           None \<Rightarrow> getFromStorage e st urlArg currentUrl keys
         | Some compressedData \<Rightarrow>
             if compressedData = [] then getFromStorage e st urlArg currentUrl keys
             else
               (case decodeEntry (decompress (enableCompression st) compressedData) of
                  None \<Rightarrow> (None, st)
                | Some (d, ts, u, h) \<Rightarrow>
                    if \<not> expiredAt e st ts \<and> urlMatches u currentUrl urlArg then
                      (let parsed = heapNext st;
                           entry = \<lparr> data = parsed, timestamp = ts, url = u, hash = h \<rparr>
                       in (Some parsed,
                           st\<lparr> heap := (heap st)(parsed := d), heapNext := Suc parsed,
                               memoryCache :=
                                 AList.update (replaceFirst (storageKey @ ''_'') [] key) entry
                                   (memoryCache st) \<rparr>))
                    else getFromStorage e st urlArg currentUrl keys))
      else getFromStorage e st urlArg currentUrl keys)"

definition get_cache :: "env \<Rightarrow> cacheState \<Rightarrow> string option \<Rightarrow> nat option \<times> cacheState" where
  \<comment> \<open>\<open>get(url)\<close>: the address of the data returned, \<open>None\<close> for \<open>null\<close>, and the state after\<close>
  "get_cache e st urlArg =
     (let currentUrl = (case truthy urlArg of Some u \<Rightarrow> u | None \<Rightarrow> getCurrentUrl e)
      in case List.find
                (\<lambda>(key, entry). urlMatches (url entry) currentUrl (truthy urlArg) \<and>
                                 \<not> isExpired e st entry)
                (memoryCache st) of
           Some (key, entry) \<Rightarrow> (Some (data entry), st)
         | None \<Rightarrow> getFromStorage e st (truthy urlArg) currentUrl (getStorageKeys st))"

definition removeStorage :: "string \<Rightarrow> cacheState \<Rightarrow> cacheState" where
  "removeStorage key st = st\<lparr> storage := AList.delete key (storage st) \<rparr>"

definition cleanupKey :: "env \<Rightarrow> cacheState \<Rightarrow> string \<Rightarrow> cacheState" where
  \<comment> \<open>the body of the loop of \<open>cleanup\<close>\<close>
  "cleanupKey e st key =
     (case map_of (storage st) key of
        None \<Rightarrow> st
      | Some compressedData \<Rightarrow>
          if compressedData = [] then st
          else (case decodeEntry (decompress (enableCompression st) compressedData) of
                  None \<Rightarrow> removeStorage key st
                | Some (d, ts, u, h) \<Rightarrow> if expiredAt e st ts then removeStorage key st else st))"

definition cleanup :: "env \<Rightarrow> cacheState \<Rightarrow> cacheState" where
  "cleanup e st =
     (let st1 = cleanupMemoryCache e st
      in foldl (cleanupKey e) st1 (getStorageKeys st1))"

definition keyForSet :: "env \<Rightarrow> cacheState \<Rightarrow> nat \<Rightarrow> string option \<Rightarrow> string" where
  \<comment> \<open>the key under which \<open>set\<close> writes, named for the statements about it\<close>
  "keyForSet e st dataRef urlArg =
     generateKey e (urlForSet e urlArg) (Some (generateContentHash (heap st dataRef)))"

definition entryForSet :: "env \<Rightarrow> cacheState \<Rightarrow> nat \<Rightarrow> string option \<Rightarrow> cacheEntry" where
  \<comment> \<open>the entry that \<open>set\<close> writes\<close>
  "entryForSet e st dataRef urlArg =
     \<lparr> data = heapNext st, timestamp = date_now e, url = Some (urlForSet e urlArg),
       hash = Some (generateContentHash (heap st dataRef)) \<rparr>"

fun set_all :: "cacheState \<Rightarrow> (env \<times> nat \<times> string option) list \<Rightarrow> cacheState" where
  \<comment> \<open>calls of \<open>set\<close> one after the other, each with its surroundings, the address of
      its data and its URL argument\<close>
  "set_all st [] = st"
| "set_all st ((e, dataRef, urlArg) # ws) = set_all (set_cache e st dataRef urlArg) ws"

fun writtenWithin :: "int \<Rightarrow> int list \<Rightarrow> bool" where
  \<comment> \<open>time stamps in the order of writing: no later one is more than \<open>t\<close> after an
      earlier one, so that nothing written has expired at a later write\<close>
  "writtenWithin t [] = True"
| "writtenWithin t (x # xs) = (list_all (\<lambda>y. y - x \<le> t) xs \<and> writtenWithin t xs)"

definition writeKey :: "cacheState \<Rightarrow> env \<times> nat \<times> string option \<Rightarrow> string" where
  \<comment> \<open>the key under which a call of \<open>set\<close> writes\<close>
  "writeKey st w = (case w of (e, dataRef, urlArg) \<Rightarrow> keyForSet e st dataRef urlArg)"

definition writeStamp :: "env \<times> nat \<times> string option \<Rightarrow> int" where
  \<comment> \<open>the time stamp that a call of \<open>set\<close> gives its entry\<close>
  "writeStamp w = date_now (fst w)"

definition writeRef :: "env \<times> nat \<times> string option \<Rightarrow> nat" where
  \<comment> \<open>the address of the data of a call of \<open>set\<close>\<close>
  "writeRef w = fst (snd w)"

definition keyTime :: "string \<times> cacheEntry \<Rightarrow> string \<times> int" where
  \<comment> \<open>the key of an entry of the memory tier with its time stamp\<close>
  "keyTime p = (fst p, timestamp (snd p))"

subsection \<open>A scenario\<close>

text \<open>
  One page of the application is open at \<open>exampleUrl\<close>; the host's URL parser answers
  its path, and throws on a string that is no URL. The caller holds three lists of
  transactions at the addresses 0, 1 and 2.
\<close>

definition exampleUrl :: string where
  "exampleUrl = ''https://app.paytracker.com/transactions''"

definition exampleEnv :: "int \<Rightarrow> env" where
  \<comment> \<open>the surroundings of an operation at the time \<open>t\<close>\<close>
  "exampleEnv t =
     \<lparr> date_now = t,
       active_tab_url = Some exampleUrl,
       url_pathname_search = (\<lambda>u. if u = exampleUrl then Some ''/transactions'' else None) \<rparr>"

definition tx1 :: transaction where
  "tx1 = \<lparr> customer = ''John Doe'', date = ''Nov 2'', amount = ''$25.00'',
            transactionId = ''EEP86556NRJ4C'' \<rparr>"

definition tx2 :: transaction where
  "tx2 = \<lparr> customer = ''Jane Smith'', date = ''Nov 3'', amount = ''$40.00'',
            transactionId = ''XK4PD2M9QW7TZ'' \<rparr>"

definition exampleHeap :: "nat \<Rightarrow> transaction list" where
  "exampleHeap = (\<lambda>a. [])(0 := [tx1], 1 := [tx1, tx2], 2 := [tx2])"

definition exampleEntryText :: string where
  \<comment> \<open>the text that \<open>set\<close> stores for \<open>[tx1]\<close> written at the time 1797002233445\<close>
  "exampleEntryText =
     stringifyEntry [tx1] 1797002233445 exampleUrl (generateContentHash [tx1])"

definition smallCache :: cacheState where
  \<comment> \<open>\<open>new TransactionCache({maxEntries: 2})\<close> on an empty storage\<close>
  "smallCache =
     newTransactionCache
       \<lparr> opt_ttl = None, opt_maxEntries = Some 2, opt_enableCompression = None \<rparr>
       [] exampleHeap 3"

definition writeTime :: int where
  "writeTime = 1797002233445"

definition twoWrites :: cacheState where
  \<comment> \<open>\<open>smallCache\<close> after \<open>set\<close> of the lists at 0 and at 1, one second apart\<close>
  "twoWrites =
     set_cache (exampleEnv (writeTime + 1000))
       (set_cache (exampleEnv writeTime) smallCache 0 (Some exampleUrl)) 1 (Some exampleUrl)"

definition threeWrites :: "(env \<times> nat \<times> string option) list" where
  \<comment> \<open>\<open>set\<close> of the lists at 0, 1 and 2, one second apart\<close>
  "threeWrites =
     [(exampleEnv writeTime, 0, Some exampleUrl),
      (exampleEnv (writeTime + 1000), 1, Some exampleUrl),
      (exampleEnv (writeTime + 2000), 2, Some exampleUrl)]"

definition sharedCache :: cacheState where
  \<comment> \<open>the exported instance on an empty storage\<close>
  "sharedCache = transactionCache [] exampleHeap 3"

definition staleState :: cacheState where
  \<comment> \<open>\<open>set([tx1], exampleUrl)\<close>, and a minute later \<open>set([tx1, tx2], exampleUrl)\<close>\<close>
  "staleState =
     set_cache (exampleEnv (writeTime + 60000))
       (set_cache (exampleEnv writeTime) sharedCache 0 (Some exampleUrl)) 1 (Some exampleUrl)"

definition writtenState :: cacheState where
  \<comment> \<open>\<open>set([tx1])\<close> at the time \<open>writeTime\<close>\<close>
  "writtenState = set_cache (exampleEnv writeTime) sharedCache 0 None"

definition afterTTL :: env where
  \<comment> \<open>the surroundings one millisecond after the entry of \<open>writtenState\<close> has expired\<close>
  "afterTTL = exampleEnv (writeTime + defaultTTL + 1)"

section \<open>Properties of the identifier repair\<close>

lemma firstSome_SomeD: "firstSome f xs = Some y \<Longrightarrow> \<exists>x. x \<in> set xs \<and> f x = Some y"
  by (induction xs) (auto split: option.splits)

lemma find_SomeD: "List.find P xs = Some x \<Longrightarrow> x \<in> set xs \<and> P x"
  by (induction xs) (auto split: if_splits)

lemma matchAll13_elems:
  "m \<in> set (matchAll13 s) \<Longrightarrow> length m = 13 \<and> list_all isUpperAlnum m"
proof (induction s rule: matchAll13.induct)
  case (1 s)
  show ?case
  proof (cases "length s < 13")
    case True
    with "1.prems" show ?thesis by (simp add: matchAll13.simps [of s])
  next
    case long: False
    show ?thesis
    proof (cases "list_all isUpperAlnum (take 13 s)")
      case True
      with long "1.prems" have "m = take 13 s \<or> m \<in> set (matchAll13 (drop 13 s))"
        by (simp add: matchAll13.simps [of s])
      with long True "1.IH"(1) show ?thesis by auto
    next
      case False
      with long "1.prems" have "m \<in> set (matchAll13 (tl s))"
        by (simp add: matchAll13.simps [of s])
      with long False "1.IH"(2) show ?thesis by auto
    qed
  qed
qed

lemma pattern4_result:
  "pattern4 raw = Some r \<Longrightarrow> length r = 13 \<and> list_all isUpperAlnum r"
  unfolding pattern4_def firstWithoutRun_def
  by (blast dest: find_SomeD matchAll13_elems)

lemma pattern3_length: "pattern3 raw = Some r \<Longrightarrow> length r = 13"
  by (auto simp: pattern3_def Let_def split: if_splits)

lemma pattern1_result:
  "pattern1 raw = Some r \<Longrightarrow> length r = 13 \<and> list_all isUpperAlnum r"
  by (auto simp: pattern1_def Let_def testUpperAlnum_def isUpperAlnum_def
      split: option.splits if_splits)

lemma runMatchAt_groups:
  assumes m: "runMatchAt lo3 hi3 s p = Some (pre, c, suf)"
  shows "list_all isUpperAlnum pre \<and> list_all isUpperAlnum suf"
proof -
  from m have a: "list_all isUpperAlnum (take (Suc p) s)" and lt: "p < length s"
    by (auto simp: runMatchAt_def split: if_splits)
  from a lt have "list_all isUpperAlnum (take p s)"
    by (simp add: take_Suc_conv_app_nth)
  moreover from m have "pre = take p s"
    by (auto simp: runMatchAt_def Let_def split: if_splits option.splits)
  moreover from m have "list_all isUpperAlnum suf"
    by (auto simp: runMatchAt_def Let_def split: if_splits option.splits dest!: find_SomeD)
  ultimately show ?thesis by simp
qed

lemma runMatch_groups:
  "runMatch lo1 hi1 lo3 hi3 s = Some (pre, c, suf) \<Longrightarrow>
     list_all isUpperAlnum pre \<and> list_all isUpperAlnum suf"
  unfolding runMatch_def by (blast dest: firstSome_SomeD runMatchAt_groups)

lemma commonMiddles_alnum: "m \<in> set commonMiddles \<Longrightarrow> list_all isUpperAlnum m"
  by (auto simp: commonMiddles_def isUpperAlnum_def)

lemma pattern2_result:
  assumes "pattern2 raw = Some r"
  shows "length r = 13 \<and> list_all isUpperAlnum r"
proof -
  from assms obtain pre c suf where fm: "floodMatch raw = Some (pre, c, suf)"
    by (auto simp: pattern2_def split: option.splits)
  with assms obtain middle where mid: "middle \<in> set commonMiddles"
    and r: "r = pre @ middle @ suf" and len: "length (pre @ middle @ suf) = 13"
    by (auto simp: pattern2_def Let_def split: if_splits dest!: firstSome_SomeD)
  from fm have "list_all isUpperAlnum pre \<and> list_all isUpperAlnum suf"
    unfolding floodMatch_def by (rule runMatch_groups)
  with mid r len show ?thesis by (simp add: commonMiddles_alnum)
qed

lemma repair_cases:
  assumes "fixCorruptedTransactionId raw = Some r"
  shows "pattern1 raw = Some r \<or> pattern2 raw = Some r \<or> pattern3 raw = Some r \<or>
         pattern4 raw = Some r"
  using assms by (auto simp: fixCorruptedTransactionId_def split: if_splits option.splits)

lemma repair_length: "fixCorruptedTransactionId raw = Some r \<Longrightarrow> length r = 13"
  by (blast dest: repair_cases pattern1_result pattern2_result pattern3_length pattern4_result)

lemma dropWhile_append_stop:
  "\<not> P y \<Longrightarrow> Suc (length ys) \<le> length (dropWhile P (xs @ y # ys))"
  by (induction xs) auto

lemma set_dropWhile_subset: "set (dropWhile P xs) \<subseteq> set xs"
  by (induction xs) auto

lemma pattern3_on_run:
  assumes res: "pattern3 (p @ replicate n c @ s) = Some r"
    and p: "list_all isUpperAlnum p" and s: "list_all isUpperAlnum s"
    and n: "11 \<le> n" and ls: "3 \<le> length s"
  shows "list_all isUpperAlnum r"
proof (cases "isUpperAlnum c")
  case True
  let ?raw = "p @ replicate n c @ s"
  from True p s have all: "list_all isUpperAlnum ?raw" by (auto simp: list_all_iff)
  from res have r: "r = ''08'' @ dropWhile (\<lambda>c. c = CHR ''0'') ?raw"
    by (auto simp: pattern3_def Let_def split: if_splits)
  from all have "list_all isUpperAlnum (dropWhile (\<lambda>c. c = CHR ''0'') ?raw)"
    using set_dropWhile_subset [of "\<lambda>c. c = CHR ''0''" ?raw] by (auto simp: list_all_iff)
  with r show ?thesis by (simp add: isUpperAlnum_def)
next
  case False
  then have c0: "c \<noteq> CHR ''0''" by (auto simp: isUpperAlnum_def)
  from n obtain k where k: "n = Suc k" by (cases n) auto
  have "Suc (length (replicate k c @ s)) \<le>
        length (dropWhile (\<lambda>x. x = CHR ''0'') (p @ c # (replicate k c @ s)))"
    using c0 by (intro dropWhile_append_stop) simp
  with k n ls have "14 \<le> length (dropWhile (\<lambda>x. x = CHR ''0'') (p @ replicate n c @ s))"
    by simp
  with res show ?thesis by (auto simp: pattern3_def Let_def split: if_splits)
qed

text \<open>
  Pattern 1 accepts every input of the shape its comment describes: a prefix of 3 to
  6 characters of \<open>[A-Z0-9]\<close>, a character of \<open>[A-Z0-9]\<close> repeated 11 times or more,
  a suffix of 3 to 6 characters of \<open>[A-Z0-9]\<close>.
\<close>

lemma firstSome_not_None: "x \<in> set xs \<Longrightarrow> f x \<noteq> None \<Longrightarrow> firstSome f xs \<noteq> None"
  by (induction xs) (auto split: option.splits)

lemma find_not_None: "x \<in> set xs \<Longrightarrow> P x \<Longrightarrow> List.find P xs \<noteq> None"
  by (induction xs) auto

lemma takeWhile_replicate_append:
  "length (takeWhile (\<lambda>x. x = c) (replicate m c @ s)) = m + length (takeWhile (\<lambda>x. x = c) s)"
  by (induction m) auto

lemma repeatedMatch_accepts:
  assumes p: "3 \<le> length p" "length p \<le> 6" "list_all isUpperAlnum p"
    and c: "isUpperAlnum c" and n: "11 \<le> n"
    and s: "3 \<le> length s" "length s \<le> 6" "list_all isUpperAlnum s"
  shows "repeatedMatch (p @ replicate n c @ s) \<noteq> None"
proof -
  let ?raw = "p @ replicate n c @ s"
  let ?rest = "drop (Suc (length p)) ?raw"
  let ?run = "length (takeWhile (\<lambda>x. x = ?raw ! length p) ?rest)"
  let ?ok = "\<lambda>k. 3 \<le> length (drop k ?rest) \<and> length (drop k ?rest) \<le> 6 \<and>
                 list_all isUpperAlnum (drop k ?rest)"
  from n obtain m where m: "n = Suc m" "10 \<le> m" by (cases n) auto
  have at: "?raw ! length p = c" using m by (simp add: nth_append)
  have rest: "?rest = replicate m c @ s" using m by simp
  have lt: "length p < length ?raw" using m by simp
  have pre: "list_all isUpperAlnum (take (Suc (length p)) ?raw)"
    using p c m by (simp add: list_all_iff)
  have run: "m \<le> ?run"
    unfolding at rest by (simp add: takeWhile_replicate_append)
  have okm: "?ok m"
    unfolding rest using s by simp
  have "m \<in> set (rev [10 ..< Suc ?run])"
    using m run by (simp del: upt_Suc)
  then have "List.find ?ok (rev [10 ..< Suc ?run]) \<noteq> None"
    using okm by (rule find_not_None)
  then obtain k where "List.find ?ok (rev [10 ..< Suc ?run]) = Some k" by blast
  then have "runMatchAt 3 6 ?raw (length p) = Some (take (length p) ?raw, ?raw ! length p, drop k ?rest)"
    unfolding runMatchAt_def Let_def using lt pre by (simp only: if_True option.case simp_thms)
  then have "runMatchAt 3 6 ?raw (length p) \<noteq> None" by simp
  moreover have "length p \<in> set (rev [3 ..< Suc 6])" using p by auto
  ultimately show ?thesis
    unfolding repeatedMatch_def runMatch_def by (rule firstSome_not_None [rotated])
qed

text \<open>
  The greedy first group of Pattern 1 takes the first \<open>6\<close> of the run whenever the run
  is long enough to leave ten back-references: on \<open>EEP8\<close>, twelve \<open>6\<close>, \<open>NRJ4C\<close> the
  groups are \<open>EEP86\<close>, \<open>6\<close>, \<open>NRJ4C\<close>, so the comparison \<open>prefix === 'EEP8'\<close> of the
  special case is false. With eleven \<open>6\<close> the first group cannot be longer than
  \<open>EEP8\<close>, and the special case answers.
\<close>

lemma repeatedMatch_twelve_sixes:
  "repeatedMatch (''EEP8'' @ replicate 12 CHR ''6'' @ ''NRJ4C'') =
     Some (''EEP86'', CHR ''6'', ''NRJ4C'')"
  by code_simp

lemma repair_eleven_sixes:
  "fixCorruptedTransactionId (''EEP8'' @ replicate 11 CHR ''6'' @ ''NRJ4C'') =
     Some ''EEP86556NRJ4C''"
  by code_simp

text \<open>
  Claim C1. The repair of \<open>EEP8\<close> followed by twelve \<open>6\<close> and \<open>NRJ4C\<close> is stated to be
  \<open>EEP86556NRJ4C\<close>. The code returns \<open>null\<close> on this input: Pattern 1 matches with the
  prefix \<open>EEP86\<close>, the special case is skipped, the decremented reconstruction has 11
  characters, Patterns 2 and 3 do not match, and the only 13-character window of
  Pattern 4 holds nine \<open>6\<close> in a row.
\<close>

theorem repair_historical_input_is_null:
  "fixCorruptedTransactionId (''EEP8'' @ replicate 12 CHR ''6'' @ ''NRJ4C'') = None"
  by code_simp

text \<open>
  Claim C3. An input of at least 13 characters made of a prefix of 3 to 6 characters
  of \<open>[A-Z0-9]\<close>, one character repeated 11 times or more, and a suffix of 3 to 6
  characters of \<open>[A-Z0-9]\<close> is repaired to \<open>null\<close> or to a string of exactly 13
  characters, each of \<open>[A-Z0-9]\<close>.
\<close>

theorem repair_run_length_result:
  assumes raw: "raw = p @ replicate n c @ s"
    and "13 \<le> length raw"
    and "3 \<le> length p" "length p \<le> 6" "list_all isUpperAlnum p"
    and "11 \<le> n"
    and "3 \<le> length s" "length s \<le> 6" "list_all isUpperAlnum s"
  shows "fixCorruptedTransactionId raw = None \<or>
         (\<exists>r. fixCorruptedTransactionId raw = Some r \<and> length r = 13 \<and>
              list_all isUpperAlnum r)"
proof (cases "fixCorruptedTransactionId raw")
  case None
  then show ?thesis by simp
next
  case (Some r)
  then have "length r = 13" by (rule repair_length)
  moreover from Some have "list_all isUpperAlnum r"
    using assms
    by (blast dest: repair_cases pattern1_result pattern2_result pattern3_on_run pattern4_result)
  ultimately show ?thesis using Some by simp
qed

theorem repair_run_length_result_witness:
  "(fixCorruptedTransactionId (''ABCDEF'' @ replicate 11 CHR ''7'' @ ''GHIJKL'') = None \<or>
    (\<exists>r. fixCorruptedTransactionId (''ABCDEF'' @ replicate 11 CHR ''7'' @ ''GHIJKL'') = Some r \<and>
         length r = 13 \<and> list_all isUpperAlnum r)) \<and>
   fixCorruptedTransactionId (''ABCDEF'' @ replicate 11 CHR ''7'' @ ''GHIJKL'') =
     Some ''ABCDEF6GHIJKL''"
proof
  show "fixCorruptedTransactionId (''ABCDEF'' @ replicate 11 CHR ''7'' @ ''GHIJKL'') = None \<or>
    (\<exists>r. fixCorruptedTransactionId (''ABCDEF'' @ replicate 11 CHR ''7'' @ ''GHIJKL'') = Some r \<and>
         length r = 13 \<and> list_all isUpperAlnum r)"
    by (rule repair_run_length_result
          [where p = "''ABCDEF''" and n = 11 and c = "CHR ''7''" and s = "''GHIJKL''"])
       (simp_all add: isUpperAlnum_def)
  show "fixCorruptedTransactionId (''ABCDEF'' @ replicate 11 CHR ''7'' @ ''GHIJKL'') =
     Some ''ABCDEF6GHIJKL''"
    by code_simp
qed

text \<open>
  Claim C4. An input of fewer than 13 characters, the empty string included, is
  repaired to \<open>null\<close>.
\<close>

theorem repair_short_input_is_null:
  "length raw < 13 \<Longrightarrow> fixCorruptedTransactionId raw = None"
  by (simp add: fixCorruptedTransactionId_def)

theorem repair_short_input_is_null_witness:
  "length ''EEP86556NRJ4'' < 13 \<and> fixCorruptedTransactionId ''EEP86556NRJ4'' = None \<and>
   fixCorruptedTransactionId [] = None"
  using repair_short_input_is_null [of "''EEP86556NRJ4''"] repair_short_input_is_null [of "[]"]
  by simp

text \<open>
  Claim C10. On every input the repair returns \<open>null\<close> or a string of exactly 13
  characters. The 13 characters need not be of \<open>[A-Z0-9]\<close>: the leading-zero
  strategy keeps whatever follows the zeros.
\<close>

theorem repair_result_has_13_characters:
  "(fixCorruptedTransactionId raw = None \<or>
    (\<exists>r. fixCorruptedTransactionId raw = Some r \<and> length r = 13)) \<and>
   fixCorruptedTransactionId ''000000abcdefghijk'' = Some ''08abcdefghijk'' \<and>
   \<not> list_all isUpperAlnum ''08abcdefghijk''"
proof (intro conjI)
  show "fixCorruptedTransactionId raw = None \<or>
    (\<exists>r. fixCorruptedTransactionId raw = Some r \<and> length r = 13)"
    by (cases "fixCorruptedTransactionId raw") (auto dest: repair_length)
  show "fixCorruptedTransactionId ''000000abcdefghijk'' = Some ''08abcdefghijk''"
    by code_simp
  show "\<not> list_all isUpperAlnum ''08abcdefghijk''"
    by (simp add: isUpperAlnum_def)
qed

section \<open>Properties of the run-length transform\<close>

text \<open>
  \<open>decompress\<close> reads any character, digits, the same character as a run it has to
  expand, whether or not \<open>compress\<close> wrote it. A clean identifier that holds such a
  group is expanded into the corrupted shapes that the comments of the repair
  function list.
\<close>

lemma decompress_corrupts_clean_identifiers:
  "decompress True ''EEP86556NRJ4C'' = ''EEP8'' @ replicate 55 CHR ''6'' @ ''NRJ4C'' \<and>
   decompress True ''BC61CZCMFPEGG'' = ''B'' @ replicate 61 CHR ''C'' @ ''ZCMFPEGG'' \<and>
   decompress True ''0807XV6ZZKSM0'' = ''000000007XV6ZZKSM0''"
  by code_simp

lemma compress_disabled_round_trip: "decompress False (compress False x) = x"
  by (simp add: compress_def decompress_def)

text \<open>
  Claim C2. Decompressing the compression of a text is stated to give the text back.
  With compression enabled the code does not: \<open>141\<close> has no run to compress and is
  expanded to \<open>1111\<close>; and the text that \<open>set\<close> stores for one transaction with the
  identifier \<open>EEP86556NRJ4C\<close>, written at the time 1797002233445, comes back with
  another identifier and another time stamp.
\<close>

theorem compress_round_trip_fails:
  "decompress True (compress True ''141'') = ''1111'' \<and>
   decompress True (compress True exampleEntryText) \<noteq> exampleEntryText \<and>
   decodeEntry exampleEntryText =
     Some ([tx1], 1797002233445, Some exampleUrl, Some ''19mv3d'') \<and>
   decodeEntry (decompress True (compress True exampleEntryText)) =
     Some ([tx1\<lparr>transactionId := ''EEP8'' @ replicate 55 CHR ''6'' @ ''NRJ4C''\<rparr>],
           1777777777002233445, Some exampleUrl, Some ''19mv3d'')"
proof (intro conjI)
  show "decompress True (compress True ''141'') = ''1111''"
    by code_simp
  show a: "decodeEntry exampleEntryText =
     Some ([tx1], 1797002233445, Some exampleUrl, Some ''19mv3d'')"
    by code_simp
  show b: "decodeEntry (decompress True (compress True exampleEntryText)) =
     Some ([tx1\<lparr>transactionId := ''EEP8'' @ replicate 55 CHR ''6'' @ ''NRJ4C''\<rparr>],
           1777777777002233445, Some exampleUrl, Some ''19mv3d'')"
    by code_simp
  show "decompress True (compress True exampleEntryText) \<noteq> exampleEntryText"
  proof
    assume "decompress True (compress True exampleEntryText) = exampleEntryText"
    with a b show False by simp
  qed
qed

section \<open>Properties of the page extractor\<close>

subsection \<open>The scan for a run of 13 characters\<close>

lemma matchAll13_short: "length s < 13 \<Longrightarrow> matchAll13 s = []"
  by (simp add: matchAll13.simps [of s])

lemma firstMatch13_here:
  "13 \<le> length s \<Longrightarrow> list_all isUpperAlnum (take 13 s) \<Longrightarrow> firstMatch13 s = Some (take 13 s)"
  by (simp add: firstMatch13_def matchAll13.simps [of s])

lemma firstMatch13_skip:
  "13 \<le> length s \<Longrightarrow> \<not> list_all isUpperAlnum (take 13 s) \<Longrightarrow>
     firstMatch13 s = firstMatch13 (tl s)"
  by (simp add: firstMatch13_def matchAll13.simps [of s])

lemma firstMatch13_leftmost:
  "k + 13 \<le> length s \<Longrightarrow> list_all isUpperAlnum (take 13 (drop k s)) \<Longrightarrow>
     (\<forall>j<k. \<not> list_all isUpperAlnum (take 13 (drop j s))) \<Longrightarrow>
     firstMatch13 s = Some (take 13 (drop k s))"
proof (induction k arbitrary: s)
  case 0
  then show ?case by (simp add: firstMatch13_here)
next
  case (Suc k)
  from Suc.prems(3) have "\<not> list_all isUpperAlnum (take 13 (drop 0 s))" by blast
  with Suc.prems(1) have skip: "firstMatch13 s = firstMatch13 (tl s)"
    by (simp add: firstMatch13_skip)
  have "k + 13 \<le> length (tl s)" using Suc.prems(1) by simp
  moreover have "list_all isUpperAlnum (take 13 (drop k (tl s)))"
    using Suc.prems(2) by (simp add: drop_Suc)
  moreover have "\<forall>j<k. \<not> list_all isUpperAlnum (take 13 (drop j (tl s)))"
    using Suc.prems(3) by (auto simp: drop_Suc [symmetric])
  ultimately have "firstMatch13 (tl s) = Some (take 13 (drop k (tl s)))" by (rule Suc.IH)
  with skip show ?case by (simp add: drop_Suc)
qed

lemma firstMatch13_none:
  "(\<forall>k. k + 13 \<le> length s \<longrightarrow> \<not> list_all isUpperAlnum (take 13 (drop k s))) \<Longrightarrow>
     firstMatch13 s = None"
proof (induction s)
  case Nil
  then show ?case by (simp add: firstMatch13_def matchAll13_short)
next
  case (Cons c s)
  show ?case
  proof (cases "length (c # s) < 13")
    case True
    then show ?thesis by (simp add: firstMatch13_def matchAll13_short)
  next
    case False
    then have len: "13 \<le> length (c # s)" by simp
    from Cons.prems len have "\<not> list_all isUpperAlnum (take 13 (drop 0 (c # s)))"
      by (metis add_0)
    with len have skip: "firstMatch13 (c # s) = firstMatch13 s"
      using firstMatch13_skip [of "c # s"] by simp
    have "\<forall>k. k + 13 \<le> length s \<longrightarrow> \<not> list_all isUpperAlnum (take 13 (drop k s))"
    proof (intro allI impI)
      fix k assume "k + 13 \<le> length s"
      then have "Suc k + 13 \<le> length (c # s)" by simp
      with Cons.prems have "\<not> list_all isUpperAlnum (take 13 (drop (Suc k) (c # s)))" by blast
      then show "\<not> list_all isUpperAlnum (take 13 (drop k s))" by simp
    qed
    then have "firstMatch13 s = None" by (rule Cons.IH)
    with skip show ?thesis by simp
  qed
qed

lemma firstMatch13_some:
  "k + 13 \<le> length s \<Longrightarrow> list_all isUpperAlnum (take 13 (drop k s)) \<Longrightarrow>
     firstMatch13 s \<noteq> None"
proof (induction k arbitrary: s)
  case 0
  then show ?case by (simp add: firstMatch13_here)
next
  case (Suc k)
  show ?case
  proof (cases "list_all isUpperAlnum (take 13 s)")
    case True
    with Suc.prems(1) show ?thesis by (simp add: firstMatch13_here)
  next
    case False
    with Suc.prems(1) have "firstMatch13 s = firstMatch13 (tl s)"
      by (simp add: firstMatch13_skip)
    moreover have "firstMatch13 (tl s) \<noteq> None"
      using Suc.prems by (intro Suc.IH) (simp_all add: drop_Suc)
    ultimately show ?thesis by simp
  qed
qed

lemma firstMatch13_window:
  "firstMatch13 s = Some m \<Longrightarrow>
     \<exists>k. k + 13 \<le> length s \<and> list_all isUpperAlnum (take 13 (drop k s))"
  using firstMatch13_none [of s] by force

lemma firstMatch13_length: "firstMatch13 s = Some m \<Longrightarrow> length m = 13"
  using matchAll13_elems [of m s]
  by (auto simp: firstMatch13_def split: list.splits)

lemma firstWithoutRun_length:
  "firstWithoutRun (matchAll13 s) = Some m \<Longrightarrow> length m = 13"
  unfolding firstWithoutRun_def by (blast dest: find_SomeD matchAll13_elems)

subsection \<open>The loop over the extraction methods\<close>

lemma tryMethod_None [simp]: "tryMethod None = None"
  by (simp add: tryMethod_def)

lemma tryMethod_Some:
  "tryMethod (Some s) =
     (if length s = 13 \<and> testUpperAlnum s then Some s else fixCorruptedTransactionId s)"
proof (cases "length s = 13 \<and> testUpperAlnum s")
  case True
  then have "s \<noteq> []" by auto
  with True show ?thesis by (simp add: tryMethod_def)
next
  case False
  show ?thesis
  proof (cases "fixCorruptedTransactionId s")
    case None
    with False show ?thesis by (auto simp: tryMethod_def)
  next
    case (Some r)
    then have "length r = 13" by (rule repair_length)
    then have r: "r \<noteq> []" by auto
    from Some have "s \<noteq> []" by (auto simp: fixCorruptedTransactionId_def)
    with False Some r show ?thesis by (auto simp: tryMethod_def)
  qed
qed

lemma tryMethod_length: "tryMethod x = Some r \<Longrightarrow> length r = 13"
  by (cases x) (auto simp: tryMethod_Some split: if_splits dest: repair_length)

lemma tryMethods_first:
  "i < length ms \<Longrightarrow> tryMethod (ms ! i) = Some r \<Longrightarrow>
     (\<forall>j<i. tryMethod (ms ! j) = None) \<Longrightarrow> tryMethods ms = r"
proof (induction ms arbitrary: i)
  case Nil
  then show ?case by simp
next
  case (Cons m ms)
  show ?case
  proof (cases i)
    case 0
    with Cons.prems show ?thesis by simp
  next
    case (Suc i')
    with Cons.prems(3) have m: "tryMethod m = None" by auto
    have "tryMethods ms = r"
    proof (rule Cons.IH)
      show "i' < length ms" using Cons.prems(1) Suc by simp
      show "tryMethod (ms ! i') = Some r" using Cons.prems(2) Suc by simp
      show "\<forall>j<i'. tryMethod (ms ! j) = None"
      proof (intro allI impI)
        fix j assume "j < i'"
        then have "Suc j < i" using Suc by simp
        with Cons.prems(3) have "tryMethod ((m # ms) ! Suc j) = None" by blast
        then show "tryMethod (ms ! j) = None" by simp
      qed
    qed
    with m show ?thesis by simp
  qed
qed

lemma tryMethods_none:
  "(\<forall>j<length ms. tryMethod (ms ! j) = None) \<Longrightarrow> tryMethods ms = ''N/A''"
proof (induction ms)
  case Nil
  then show ?case by simp
next
  case (Cons m ms)
  from Cons.prems have m: "tryMethod m = None" by auto
  have "\<forall>j<length ms. tryMethod (ms ! j) = None"
  proof (intro allI impI)
    fix j assume "j < length ms"
    then have "Suc j < length (m # ms)" by simp
    with Cons.prems have "tryMethod ((m # ms) ! Suc j) = None" by blast
    then show "tryMethod (ms ! j) = None" by simp
  qed
  then have "tryMethods ms = ''N/A''" by (rule Cons.IH)
  with m show ?case by simp
qed

lemma tryMethods_result: "tryMethods ms = ''N/A'' \<or> length (tryMethods ms) = 13"
  by (induction ms) (auto split: option.splits dest: tryMethod_length)

lemma tryMethods_sentinel:
  "tryMethods ms = ''N/A'' \<Longrightarrow> j < length ms \<Longrightarrow> tryMethod (ms ! j) = None"
proof (induction ms arbitrary: j)
  case Nil
  then show ?case by simp
next
  case (Cons m ms)
  show ?case
  proof (cases "tryMethod m")
    case None
    with Cons.prems(1) have "tryMethods ms = ''N/A''" by simp
    with Cons.IH Cons.prems(2) None show ?thesis by (cases j) simp_all
  next
    case (Some r)
    with Cons.prems(1) have "r = ''N/A''" by simp
    moreover from Some have "length r = 13" by (rule tryMethod_length)
    ultimately show ?thesis by simp
  qed
qed

subsection \<open>The identifier of a container\<close>

lemma extractTransactionId_no_link: "link c = None \<Longrightarrow> extractTransactionId c = ''N/A''"
  by (simp add: extractTransactionId_def)

lemma extractTransactionId_href:
  assumes "link c = Some a" and "firstMatch13 (orElse (href a) []) = Some m"
  shows "extractTransactionId c = m"
proof -
  from assms(2) have "length m = 13" by (rule firstMatch13_length)
  then have m: "m \<noteq> ''N/A''" by auto
  from assms(2) have "orElse (href a) [] \<noteq> []"
    by (auto simp: firstMatch13_def matchAll13_short)
  with assms m show ?thesis by (simp add: extractTransactionId_def Let_def)
qed

lemma extractTransactionId_text:
  assumes "link c = Some a" and "firstMatch13 (orElse (href a) []) = None"
  shows "extractTransactionId c =
           (if tryMethods (extractionMethods a) = ''N/A''
            then (case firstWithoutRun (matchAll13 (orElse (containerText c) [])) of
                    None \<Rightarrow> ''N/A'' | Some i \<Rightarrow> i)
            else tryMethods (extractionMethods a))"
  using assms by (simp add: extractTransactionId_def Let_def split: option.splits)

lemma extractTransactionId_result:
  "extractTransactionId c = ''N/A'' \<or> length (extractTransactionId c) = 13"
proof (cases "link c")
  case None
  then show ?thesis by (simp add: extractTransactionId_no_link)
next
  case (Some a)
  show ?thesis
  proof (cases "firstMatch13 (orElse (href a) [])")
    case (Some m)
    with \<open>link c = Some a\<close> show ?thesis
      by (simp add: extractTransactionId_href firstMatch13_length)
  next
    case None
    with \<open>link c = Some a\<close> tryMethods_result [of "extractionMethods a"] show ?thesis
      by (auto simp: extractTransactionId_text split: option.splits
          dest: firstWithoutRun_length)
  qed
qed

lemma extractTransactionId_sentinel_iff:
  "extractTransactionId c = ''N/A'' \<longleftrightarrow>
     link c = None \<or>
     (\<exists>a. link c = Some a \<and> firstMatch13 (orElse (href a) []) = None \<and>
          tryMethods (extractionMethods a) = ''N/A'' \<and>
          firstWithoutRun (matchAll13 (orElse (containerText c) [])) = None)"
proof (cases "link c")
  case None
  then show ?thesis by (simp add: extractTransactionId_no_link)
next
  case (Some a)
  show ?thesis
  proof (cases "firstMatch13 (orElse (href a) [])")
    case m: (Some m)
    then have "length m = 13" by (rule firstMatch13_length)
    then have "m \<noteq> ''N/A''" by auto
    with Some m show ?thesis by (simp add: extractTransactionId_href)
  next
    case None
    show ?thesis
    proof (cases "tryMethods (extractionMethods a) = ''N/A''")
      case True
      show ?thesis
      proof (cases "firstWithoutRun (matchAll13 (orElse (containerText c) []))")
        case n: None
        with Some None True show ?thesis by (simp add: extractTransactionId_text)
      next
        case i: (Some i)
        then have "length i = 13" by (rule firstWithoutRun_length)
        then have "i \<noteq> ''N/A''" by auto
        with Some None True i show ?thesis by (simp add: extractTransactionId_text)
      qed
    next
      case False
      with Some None show ?thesis by (simp add: extractTransactionId_text)
    qed
  qed
qed

lemma orElse_nonempty: "d \<noteq> [] \<Longrightarrow> orElse x d \<noteq> []"
  by (auto simp: orElse_def split: option.splits)

subsection \<open>Two pages\<close>

lemma examplePage_records:
  "extractTransactionDataFromPage examplePage =
     [\<lparr>customer = ''John Doe'', date = ''11/02/2026'', amount = ''$25.00'',
        transactionId = ''XK4PD2M9QW7TZ''\<rparr>,
      \<lparr>customer = ''No customer selected'', date = ''N/A'', amount = ''N/A'',
        transactionId = ''ABCDEF6GHIJKL''\<rparr>,
      \<lparr>customer = ''Jane Smith'', date = ''N/A'', amount = ''N/A'',
        transactionId = ''N/A''\<rparr>]"
  by code_simp

lemma fallbackPage_records:
  "extractTransactionDataFromPage fallbackPage =
     [\<lparr>customer = ''Ann Lee'', date = ''Nov 2'', amount = ''$7.50'',
        transactionId = ''XK4PD2M9QW7TZ''\<rparr>,
      \<lparr>customer = ''No customer selected'', date = ''N/A'', amount = ''N/A'',
        transactionId = ''BC61CZCMFPEGG''\<rparr>,
      \<lparr>customer = ''Bo Chen'', date = ''N/A'', amount = ''$1.00'',
        transactionId = ''0807XV6ZZKSM0''\<rparr>,
      \<lparr>customer = ''Cy Diaz'', date = ''Nov 3'', amount = ''$2.00'',
        transactionId = ''N/A''\<rparr>,
      \<lparr>customer = ''Di Evans'', date = ''Nov 4'', amount = ''$3.00'',
        transactionId = ''N/A''\<rparr>]"
  by code_simp

subsection \<open>The records of a page\<close>

lemma field_missing:
  "x = None \<or> (\<exists>t. x = Some t \<and> trim t = []) \<Longrightarrow> orElse (map_option trim x) d = d"
  by (auto simp: orElse_def)

lemma field_present: "trim t \<noteq> [] \<Longrightarrow> orElse (map_option trim (Some t)) d = trim t"
  by (simp add: orElse_def)

lemma href_scan:
  assumes "link c = Some a"
    and "k + 13 \<le> length (orElse (href a) [])"
    and "list_all isUpperAlnum (take 13 (drop k (orElse (href a) [])))"
    and "\<forall>j<k. \<not> list_all isUpperAlnum (take 13 (drop j (orElse (href a) [])))"
  shows "extractTransactionId c = take 13 (drop k (orElse (href a) []))"
  using assms(1) firstMatch13_leftmost [OF assms(2-4)] by (rule extractTransactionId_href)

lemma text_methods:
  assumes "link c = Some a"
    and "\<forall>k. k + 13 \<le> length (orElse (href a) []) \<longrightarrow>
           \<not> list_all isUpperAlnum (take 13 (drop k (orElse (href a) [])))"
    and "i < length (extractionMethods a)"
    and "tryMethod (extractionMethods a ! i) = Some t"
    and "\<forall>j<i. tryMethod (extractionMethods a ! j) = None"
  shows "extractTransactionId c = t"
proof -
  have h: "firstMatch13 (orElse (href a) []) = None" using assms(2) by (rule firstMatch13_none)
  have t: "tryMethods (extractionMethods a) = t" using assms(3-5) by (rule tryMethods_first)
  from assms(4) have "length t = 13" by (rule tryMethod_length)
  then have "t \<noteq> ''N/A''" by auto
  with assms(1) h t show ?thesis by (simp add: extractTransactionId_text)
qed

lemma container_scan:
  assumes "link c = Some a"
    and "\<forall>k. k + 13 \<le> length (orElse (href a) []) \<longrightarrow>
           \<not> list_all isUpperAlnum (take 13 (drop k (orElse (href a) [])))"
    and "\<forall>j<length (extractionMethods a). tryMethod (extractionMethods a ! j) = None"
  shows "extractTransactionId c =
           (case firstWithoutRun (matchAll13 (orElse (containerText c) [])) of
              None \<Rightarrow> ''N/A'' | Some m \<Rightarrow> m)"
proof -
  have h: "firstMatch13 (orElse (href a) []) = None" using assms(2) by (rule firstMatch13_none)
  have t: "tryMethods (extractionMethods a) = ''N/A''" using assms(3) by (rule tryMethods_none)
  with assms(1) h show ?thesis by (simp add: extractTransactionId_text)
qed

lemma unrecoverable_iff:
  "extractTransactionId c = ''N/A'' \<longleftrightarrow>
     link c = None \<or>
     (\<exists>a. link c = Some a \<and>
          (\<forall>k. k + 13 \<le> length (orElse (href a) []) \<longrightarrow>
               \<not> list_all isUpperAlnum (take 13 (drop k (orElse (href a) [])))) \<and>
          (\<forall>j<length (extractionMethods a). tryMethod (extractionMethods a ! j) = None) \<and>
          firstWithoutRun (matchAll13 (orElse (containerText c) [])) = None)"
proof -
  have w: "firstMatch13 s = None \<longleftrightarrow>
      (\<forall>k. k + 13 \<le> length s \<longrightarrow> \<not> list_all isUpperAlnum (take 13 (drop k s)))" for s
    using firstMatch13_none [of s] firstMatch13_some [of _ s] by blast
  have m: "tryMethods ms = ''N/A'' \<longleftrightarrow> (\<forall>j<length ms. tryMethod (ms ! j) = None)" for ms
    using tryMethods_none [of ms] tryMethods_sentinel [of ms] by blast
  show ?thesis unfolding extractTransactionId_sentinel_iff w m ..
qed

text \<open>
  Claim C8. The extractor returns one record per container, in the order of the
  containers, and the empty list for no container; it has no failing branch (the
  function is total, and every field is a string by its type). No field is ever
  empty. The customer is the trimmed text of the first subtitle, and
  \<open>No customer selected\<close> when that subtitle is missing or has no text left; the date
  is the trimmed text of the second subtitle and the amount that of the amount
  element, each \<open>N/A\<close> when missing or without text.

  The identifier is \<open>N/A\<close> when the container has no link. With a link it is: the
  leftmost run of 13 characters of \<open>[A-Z0-9]\<close> in the \<open>href\<close>, if there is one;
  otherwise what the first successful extraction method gives, where the methods
  are, in this order, the trimmed \<open>textContent\<close>, the trimmed \<open>innerText\<close>, the trimmed
  concatenation of the text nodes, and the first non-empty of the attributes
  \<open>data-id\<close>, \<open>id\<close>, \<open>value\<close>, and a method succeeds with its text when that is 13
  characters of \<open>[A-Z0-9]\<close>, and else with the repair of its text when that is not
  \<open>null\<close>; otherwise the first match of \<open>/[A-Z0-9]{13}/g\<close> in the text of the
  container that has no character six times in a row; otherwise \<open>N/A\<close>. So the
  identifier is \<open>N/A\<close> exactly when the container has no link or all of these fail,
  and has 13 characters otherwise. On the page \<open>examplePage\<close>, with a clean
  identifier, a recoverable one and an unrecoverable one, and on the page
  \<open>fallbackPage\<close>, the records are the ones stated.
\<close>

theorem extractor_one_record_per_container:
  "length (extractTransactionDataFromPage doc) = length doc \<and>
   (\<forall>i. i < length doc \<longrightarrow>
        extractTransactionDataFromPage doc ! i = extractContainer (doc ! i)) \<and>
   extractTransactionDataFromPage [] = [] \<and>
   (\<forall>c. let r = extractContainer c in
        (subtitles c = [] \<or> subtitles c ! 0 = None \<or>
           (\<exists>t. subtitles c ! 0 = Some t \<and> trim t = [])
           \<longrightarrow> customer r = ''No customer selected'') \<and>
        (\<forall>t. subtitles c \<noteq> [] \<and> subtitles c ! 0 = Some t \<and> trim t \<noteq> []
           \<longrightarrow> customer r = trim t) \<and>
        (length (subtitles c) < 2 \<or> subtitles c ! 1 = None \<or>
           (\<exists>t. subtitles c ! 1 = Some t \<and> trim t = [])
           \<longrightarrow> date r = ''N/A'') \<and>
        (\<forall>t. 2 \<le> length (subtitles c) \<and> subtitles c ! 1 = Some t \<and> trim t \<noteq> []
           \<longrightarrow> date r = trim t) \<and>
        (success c = None \<or> success c = Some None \<or>
           (\<exists>t. success c = Some (Some t) \<and> trim t = [])
           \<longrightarrow> amount r = ''N/A'') \<and>
        (\<forall>t. success c = Some (Some t) \<and> trim t \<noteq> [] \<longrightarrow> amount r = trim t) \<and>
        customer r \<noteq> [] \<and> date r \<noteq> [] \<and> amount r \<noteq> [] \<and>
        (transactionId r = ''N/A'' \<or> length (transactionId r) = 13) \<and>
        (link c = None \<longrightarrow> transactionId r = ''N/A'') \<and>
        (\<forall>a. link c = Some a \<longrightarrow>
           (let h = orElse (href a) [];
                ms = [map_option trim (linkText a), map_option trim (innerText a),
                      Some (trim (concat (textNodes a))),
                      orAttr (dataId a) (orAttr (idAttr a) (valueAttr a))];
                scan = firstWithoutRun (matchAll13 (orElse (containerText c) []))
            in (\<forall>k. k + 13 \<le> length h \<and> list_all isUpperAlnum (take 13 (drop k h)) \<and>
                    (\<forall>j<k. \<not> list_all isUpperAlnum (take 13 (drop j h)))
                  \<longrightarrow> transactionId r = take 13 (drop k h)) \<and>
               ((\<forall>k. k + 13 \<le> length h \<longrightarrow> \<not> list_all isUpperAlnum (take 13 (drop k h)))
                  \<longrightarrow>
                  (\<forall>i t. i < 4 \<and> tryMethod (ms ! i) = Some t \<and>
                         (\<forall>j<i. tryMethod (ms ! j) = None)
                     \<longrightarrow> transactionId r = t) \<and>
                  ((\<forall>j<4. tryMethod (ms ! j) = None) \<longrightarrow>
                     (\<forall>m. scan = Some m \<longrightarrow> transactionId r = m) \<and>
                     (scan = None \<longrightarrow> transactionId r = ''N/A''))) \<and>
               (transactionId r = ''N/A'' \<longleftrightarrow>
                  (\<forall>k. k + 13 \<le> length h \<longrightarrow> \<not> list_all isUpperAlnum (take 13 (drop k h))) \<and>
                  (\<forall>j<4. tryMethod (ms ! j) = None) \<and> scan = None)))) \<and>
   tryMethod None = None \<and>
   (\<forall>s. tryMethod (Some s) =
        (if length s = 13 \<and> testUpperAlnum s then Some s else fixCorruptedTransactionId s)) \<and>
   extractTransactionDataFromPage examplePage =
     [\<lparr>customer = ''John Doe'', date = ''11/02/2026'', amount = ''$25.00'',
        transactionId = ''XK4PD2M9QW7TZ''\<rparr>,
      \<lparr>customer = ''No customer selected'', date = ''N/A'', amount = ''N/A'',
        transactionId = ''ABCDEF6GHIJKL''\<rparr>,
      \<lparr>customer = ''Jane Smith'', date = ''N/A'', amount = ''N/A'',
        transactionId = ''N/A''\<rparr>] \<and>
   extractTransactionDataFromPage fallbackPage =
     [\<lparr>customer = ''Ann Lee'', date = ''Nov 2'', amount = ''$7.50'',
        transactionId = ''XK4PD2M9QW7TZ''\<rparr>,
      \<lparr>customer = ''No customer selected'', date = ''N/A'', amount = ''N/A'',
        transactionId = ''BC61CZCMFPEGG''\<rparr>,
      \<lparr>customer = ''Bo Chen'', date = ''N/A'', amount = ''$1.00'',
        transactionId = ''0807XV6ZZKSM0''\<rparr>,
      \<lparr>customer = ''Cy Diaz'', date = ''Nov 3'', amount = ''$2.00'',
        transactionId = ''N/A''\<rparr>,
      \<lparr>customer = ''Di Evans'', date = ''Nov 4'', amount = ''$3.00'',
        transactionId = ''N/A''\<rparr>]"
proof -
  have ms: "[map_option trim (linkText a), map_option trim (innerText a),
             Some (trim (concat (textNodes a))),
             orAttr (dataId a) (orAttr (idAttr a) (valueAttr a))] = extractionMethods a" for a
    by (simp add: extractionMethods_def)
  have four: "4 = length (extractionMethods a)" for a
    by (simp add: extractionMethods_def)
  have tid: "transactionId (extractContainer c) = extractTransactionId c" for c
    by (simp add: extractContainer_def)
  have cust: "customer (extractContainer c) =
      orElse (trimmedTextAt (subtitles c) 0) ''No customer selected''" for c
    by (simp add: extractContainer_def)
  have dat: "date (extractContainer c) = orElse (trimmedTextAt (subtitles c) 1) ''N/A''" for c
    by (simp add: extractContainer_def)
  have amt: "amount (extractContainer c) =
      orElse (case success c of None \<Rightarrow> None | Some t \<Rightarrow> map_option trim t) ''N/A''" for c
    by (simp add: extractContainer_def)
  show ?thesis
    unfolding Let_def ms tid
  proof (intro conjI allI impI, goal_cases)
    case 1 show ?case by (simp add: extractTransactionDataFromPage_def)
  next
    case (2 i) then show ?case by (simp add: extractTransactionDataFromPage_def)
  next
    case 3 show ?case by (simp add: extractTransactionDataFromPage_def)
  next
    case (4 c) then show ?case
      unfolding cust trimmedTextAt_def by (auto simp: orElse_def)
  next
    case (5 c t) then show ?case
      unfolding cust trimmedTextAt_def by (auto simp: orElse_def)
  next
    case (6 c) then show ?case
      unfolding dat trimmedTextAt_def by (auto simp: orElse_def)
  next
    case (7 c t) then show ?case
      unfolding dat trimmedTextAt_def by (auto simp: orElse_def)
  next
    case (8 c) then show ?case
      unfolding amt by (auto simp: orElse_def)
  next
    case (9 c t) then show ?case
      unfolding amt by (auto simp: orElse_def)
  next
    case (10 c) show ?case unfolding cust by (simp add: orElse_nonempty)
  next
    case (11 c) show ?case unfolding dat by (simp add: orElse_nonempty)
  next
    case (12 c) show ?case unfolding amt by (simp add: orElse_nonempty)
  next
    case (13 c) show ?case by (rule extractTransactionId_result)
  next
    case (14 c) then show ?case by (rule extractTransactionId_no_link)
  next
    case (15 c a k) then show ?case by (intro href_scan) simp_all
  next
    case (16 c a i t)
    show ?case
    proof (rule text_methods)
      show "link c = Some a" by (rule 16(1))
      show "\<forall>k. k + 13 \<le> length (orElse (href a) []) \<longrightarrow>
           \<not> list_all isUpperAlnum (take 13 (drop k (orElse (href a) [])))" by (rule 16(2))
      show "i < length (extractionMethods a)" using 16(3) by (simp add: four [symmetric])
      show "tryMethod (extractionMethods a ! i) = Some t" using 16(3) by simp
      show "\<forall>j<i. tryMethod (extractionMethods a ! j) = None" using 16(3) by simp
    qed
  next
    case (17 c a m)
    from 17(3) have "\<forall>j<length (extractionMethods a). tryMethod (extractionMethods a ! j) = None"
      by (simp add: four [symmetric])
    with 17(1,2) have "extractTransactionId c =
           (case firstWithoutRun (matchAll13 (orElse (containerText c) [])) of
              None \<Rightarrow> ''N/A'' | Some m \<Rightarrow> m)" by (rule container_scan)
    with 17(4) show ?case by simp
  next
    case (18 c a)
    from 18(3) have "\<forall>j<length (extractionMethods a). tryMethod (extractionMethods a ! j) = None"
      by (simp add: four [symmetric])
    with 18(1,2) have "extractTransactionId c =
           (case firstWithoutRun (matchAll13 (orElse (containerText c) [])) of
              None \<Rightarrow> ''N/A'' | Some m \<Rightarrow> m)" by (rule container_scan)
    with 18(4) show ?case by simp
  next
    case (19 c a)
    then show ?case
      using unrecoverable_iff [of c] by (simp add: four [symmetric])
  next
    case 20 show ?case by simp
  next
    case (21 s) show ?case by (rule tryMethod_Some)
  next
    case 22 show ?case by (rule examplePage_records)
  next
    case 23 show ?case by (rule fallbackPage_records)
  qed
qed

theorem extractor_one_record_per_container_witness:
  "length (extractTransactionDataFromPage fallbackPage) = 5 \<and>
   extractTransactionDataFromPage fallbackPage ! 1 = extractContainer (fallbackPage ! 1) \<and>
   customer (extractContainer (fallbackPage ! 0)) = ''Ann Lee'' \<and>
   date (extractContainer (fallbackPage ! 0)) = ''Nov 2'' \<and>
   amount (extractContainer (fallbackPage ! 0)) = ''$7.50'' \<and>
   customer (extractContainer (fallbackPage ! 1)) = ''No customer selected'' \<and>
   date (extractContainer (fallbackPage ! 1)) = ''N/A'' \<and>
   amount (extractContainer (fallbackPage ! 1)) = ''N/A'' \<and>
   transactionId (extractContainer (fallbackPage ! 0)) = ''XK4PD2M9QW7TZ'' \<and>
   transactionId (extractContainer (fallbackPage ! 1)) = ''BC61CZCMFPEGG'' \<and>
   transactionId (extractContainer (fallbackPage ! 2)) = ''0807XV6ZZKSM0'' \<and>
   transactionId (extractContainer (fallbackPage ! 3)) = ''N/A'' \<and>
   transactionId (extractContainer (fallbackPage ! 4)) = ''N/A'' \<and>
   transactionId (extractContainer (examplePage ! 1)) = ''ABCDEF6GHIJKL'' \<and>
   transactionId (extractContainer (examplePage ! 2)) = ''N/A''"
proof -
  note T = extractor_one_record_per_container [of fallbackPage, unfolded Let_def]
  note C = T [THEN conjunct2, THEN conjunct2, THEN conjunct2, THEN conjunct1, THEN spec]
  note customer_present = C [THEN conjunct2, THEN conjunct1, rule_format]
  note customer_missing = C [THEN conjunct1, rule_format]
  note R3 = C [THEN conjunct2, THEN conjunct2]
  note date_missing = R3 [THEN conjunct1, rule_format]
  note date_present = R3 [THEN conjunct2, THEN conjunct1, rule_format]
  note R5 = R3 [THEN conjunct2, THEN conjunct2]
  note amount_missing = R5 [THEN conjunct1, rule_format]
  note amount_present = R5 [THEN conjunct2, THEN conjunct1, rule_format]
  note R11 = R5 [THEN conjunct2, THEN conjunct2, THEN conjunct2, THEN conjunct2,
                 THEN conjunct2, THEN conjunct2]
  note no_link = R11 [THEN conjunct1, rule_format]
  note with_link = R11 [THEN conjunct2, THEN spec, THEN mp]

  have len: "length (extractTransactionDataFromPage fallbackPage) = 5"
    using T [THEN conjunct1] by (simp add: fallbackPage_def)
  have nth: "extractTransactionDataFromPage fallbackPage ! 1 = extractContainer (fallbackPage ! 1)"
    by (rule T [THEN conjunct2, THEN conjunct1, rule_format]) (simp add: fallbackPage_def)

  have "customer (extractContainer (fallbackPage ! 0)) = trim ''Ann Lee''"
    by (rule customer_present) code_simp
  also have "trim ''Ann Lee'' = ''Ann Lee''" by code_simp
  finally have c0: "customer (extractContainer (fallbackPage ! 0)) = ''Ann Lee''" .
  have "date (extractContainer (fallbackPage ! 0)) = trim ''Nov 2''"
    by (rule date_present) code_simp
  also have "trim ''Nov 2'' = ''Nov 2''" by code_simp
  finally have d0: "date (extractContainer (fallbackPage ! 0)) = ''Nov 2''" .
  have "amount (extractContainer (fallbackPage ! 0)) = trim ''$7.50''"
    by (rule amount_present) code_simp
  also have "trim ''$7.50'' = ''$7.50''" by code_simp
  finally have a0: "amount (extractContainer (fallbackPage ! 0)) = ''$7.50''" .
  have c1: "customer (extractContainer (fallbackPage ! 1)) = ''No customer selected''"
  proof (rule customer_missing)
    have "subtitles (fallbackPage ! 1) ! 0 = None" by code_simp
    then show "subtitles (fallbackPage ! 1) = [] \<or> subtitles (fallbackPage ! 1) ! 0 = None \<or>
        (\<exists>t. subtitles (fallbackPage ! 1) ! 0 = Some t \<and> trim t = [])" by blast
  qed
  have d1: "date (extractContainer (fallbackPage ! 1)) = ''N/A''"
  proof (rule date_missing)
    have "subtitles (fallbackPage ! 1) ! 1 = Some '' '' \<and> trim '' '' = []" by code_simp
    then show "length (subtitles (fallbackPage ! 1)) < 2 \<or> subtitles (fallbackPage ! 1) ! 1 = None \<or>
        (\<exists>t. subtitles (fallbackPage ! 1) ! 1 = Some t \<and> trim t = [])" by blast
  qed
  have a1: "amount (extractContainer (fallbackPage ! 1)) = ''N/A''"
  proof (rule amount_missing)
    have "success (fallbackPage ! 1) = Some None" by code_simp
    then show "success (fallbackPage ! 1) = None \<or> success (fallbackPage ! 1) = Some None \<or>
        (\<exists>t. success (fallbackPage ! 1) = Some (Some t) \<and> trim t = [])" by blast
  qed

  define hrefAnchor where "hrefAnchor = garbledAnchor \<lparr> href := Some ''/transactions/XK4PD2M9QW7TZ?tab=1'' \<rparr>"
  have l0: "link (fallbackPage ! 0) = Some hrefAnchor"
    by (simp add: fallbackPage_def hrefAnchor_def)
  have "transactionId (extractContainer (fallbackPage ! 0)) =
          take 13 (drop 14 (orElse (href hrefAnchor) []))"
    by (rule with_link [OF l0, THEN conjunct1, THEN spec, THEN mp])
       (unfold hrefAnchor_def, code_simp)
  also have "take 13 (drop 14 (orElse (href hrefAnchor) [])) = ''XK4PD2M9QW7TZ''"
    unfolding hrefAnchor_def by code_simp
  finally have i0: "transactionId (extractContainer (fallbackPage ! 0)) = ''XK4PD2M9QW7TZ''" .

  define attrAnchor where "attrAnchor = garbledAnchor \<lparr> dataId := Some ''BC61CZCMFPEGG'' \<rparr>"
  have l1: "link (fallbackPage ! 1) = Some attrAnchor"
    by (simp add: fallbackPage_def attrAnchor_def)
  have w1: "\<forall>k. k + 13 \<le> length (orElse (href attrAnchor) []) \<longrightarrow>
      \<not> list_all isUpperAlnum (take 13 (drop k (orElse (href attrAnchor) [])))"
    by (simp add: attrAnchor_def garbledAnchor_def orElse_def)
  have i1: "transactionId (extractContainer (fallbackPage ! 1)) = ''BC61CZCMFPEGG''"
    by (rule with_link [OF l1, THEN conjunct2, THEN conjunct1, THEN mp, OF w1,
          THEN conjunct1, THEN spec [of _ 3], THEN spec, THEN mp])
       (unfold attrAnchor_def, code_simp)

  define scanAnchor where "scanAnchor = garbledAnchor \<lparr> href := Some ''#details'' \<rparr>"
  have l2: "link (fallbackPage ! 2) = Some scanAnchor"
    by (simp add: fallbackPage_def scanAnchor_def)
  have w2: "\<forall>k. k + 13 \<le> length (orElse (href scanAnchor) []) \<longrightarrow>
      \<not> list_all isUpperAlnum (take 13 (drop k (orElse (href scanAnchor) [])))"
    by (simp add: scanAnchor_def garbledAnchor_def orElse_def)
  note methods2 = with_link [OF l2, THEN conjunct2, THEN conjunct1, THEN mp, OF w2,
      THEN conjunct2, THEN mp]
  have f2: "\<forall>j<4. tryMethod
      ([map_option trim (linkText scanAnchor), map_option trim (innerText scanAnchor),
        Some (trim (concat (textNodes scanAnchor))),
        orAttr (dataId scanAnchor) (orAttr (idAttr scanAnchor) (valueAttr scanAnchor))] ! j) = None"
    unfolding scanAnchor_def by code_simp
  have i2: "transactionId (extractContainer (fallbackPage ! 2)) = ''0807XV6ZZKSM0''"
    by (rule methods2 [OF f2, THEN conjunct1, THEN spec, THEN mp]) code_simp

  have l3: "link (fallbackPage ! 3) = Some garbledAnchor"
    by (simp add: fallbackPage_def)
  have w3: "\<forall>k. k + 13 \<le> length (orElse (href garbledAnchor) []) \<longrightarrow>
      \<not> list_all isUpperAlnum (take 13 (drop k (orElse (href garbledAnchor) [])))"
    by (simp add: garbledAnchor_def orElse_def)
  note methods3 = with_link [OF l3, THEN conjunct2, THEN conjunct1, THEN mp, OF w3,
      THEN conjunct2, THEN mp]
  have f3: "\<forall>j<4. tryMethod
      ([map_option trim (linkText garbledAnchor), map_option trim (innerText garbledAnchor),
        Some (trim (concat (textNodes garbledAnchor))),
        orAttr (dataId garbledAnchor) (orAttr (idAttr garbledAnchor) (valueAttr garbledAnchor))] ! j)
        = None"
    by code_simp
  have i3: "transactionId (extractContainer (fallbackPage ! 3)) = ''N/A''"
    by (rule methods3 [OF f3, THEN conjunct2, THEN mp]) code_simp

  have i4: "transactionId (extractContainer (fallbackPage ! 4)) = ''N/A''"
    by (rule no_link) (simp add: fallbackPage_def)

  define runAnchor where "runAnchor = plainAnchor (''ABCDEF'' @ replicate 11 CHR ''7'' @ ''GHIJKL'')"
  have l5: "link (examplePage ! 1) = Some runAnchor"
    by (simp add: examplePage_def runAnchor_def)
  have w5: "\<forall>k. k + 13 \<le> length (orElse (href runAnchor) []) \<longrightarrow>
      \<not> list_all isUpperAlnum (take 13 (drop k (orElse (href runAnchor) [])))"
    by (simp add: runAnchor_def plainAnchor_def orElse_def)
  have i5: "transactionId (extractContainer (examplePage ! 1)) = ''ABCDEF6GHIJKL''"
    by (rule with_link [OF l5, THEN conjunct2, THEN conjunct1, THEN mp, OF w5,
          THEN conjunct1, THEN spec [of _ 0], THEN spec, THEN mp])
       (unfold runAnchor_def, code_simp)

  define oddAnchor where "oddAnchor = plainAnchor ''#-?-#''"
  have l6: "link (examplePage ! 2) = Some oddAnchor"
    by (simp add: examplePage_def oddAnchor_def)
  have "(\<forall>k. k + 13 \<le> length (orElse (href oddAnchor) []) \<longrightarrow>
      \<not> list_all isUpperAlnum (take 13 (drop k (orElse (href oddAnchor) [])))) \<and>
     (\<forall>j<4. tryMethod
      ([map_option trim (linkText oddAnchor), map_option trim (innerText oddAnchor),
        Some (trim (concat (textNodes oddAnchor))),
        orAttr (dataId oddAnchor) (orAttr (idAttr oddAnchor) (valueAttr oddAnchor))] ! j) = None) \<and>
     firstWithoutRun (matchAll13 (orElse (containerText (examplePage ! 2)) [])) = None"
  proof (intro conjI)
    show "\<forall>k. k + 13 \<le> length (orElse (href oddAnchor) []) \<longrightarrow>
      \<not> list_all isUpperAlnum (take 13 (drop k (orElse (href oddAnchor) [])))"
      by (simp add: oddAnchor_def plainAnchor_def orElse_def)
    show "\<forall>j<4. tryMethod
      ([map_option trim (linkText oddAnchor), map_option trim (innerText oddAnchor),
        Some (trim (concat (textNodes oddAnchor))),
        orAttr (dataId oddAnchor) (orAttr (idAttr oddAnchor) (valueAttr oddAnchor))] ! j) = None"
      unfolding oddAnchor_def by code_simp
    show "firstWithoutRun (matchAll13 (orElse (containerText (examplePage ! 2)) [])) = None"
      by code_simp
  qed
  then have i6: "transactionId (extractContainer (examplePage ! 2)) = ''N/A''"
    by (rule with_link [OF l6, THEN conjunct2, THEN conjunct2, THEN iffD2])

  from len nth c0 d0 a0 c1 d1 a1 i0 i1 i2 i3 i4 i5 i6 show ?thesis by (intro conjI)
qed

section \<open>Properties of the extraction orchestrator\<close>

lemma find_None_all: "list_all (\<lambda>x. \<not> P x) xs \<Longrightarrow> List.find P xs = None"
  by (induction xs) auto

lemma filter_none: "list_all (\<lambda>x. \<not> P x) xs \<Longrightarrow> filter P xs = []"
  by (induction xs) auto

text \<open>
  Claim C9. When no suitable tab is found the orchestrator fails with the
  no-suitable-tab error and returns no record list: in the popup when the query for
  the active tab answers no tab, or a tab without a usable id; in the detached window
  when no tab is a PayTracker tab and no tab is a regular tab, or when the fallback
  tab has no usable id.
\<close>

theorem no_suitable_tab_is_an_error:
  "(\<not> strIncludes (location_search b) ''detached=true'' \<and> tabs_active_current b = Inr ts \<and>
      usableId (case ts of [] \<Rightarrow> None | t # rest \<Rightarrow> Some t) = None
      \<longrightarrow> extractTransactionData b = Inl NoSuitableTab) \<and>
   (strIncludes (location_search b) ''detached=true'' \<and> tabs_all b = Inr ts \<and>
      list_all (\<lambda>t. \<not> isPayTrackerTab t) ts \<and> list_all (\<lambda>t. \<not> isRegularTab t) ts
      \<longrightarrow> extractTransactionData b = Inl NoSuitableTab) \<and>
   (strIncludes (location_search b) ''detached=true'' \<and> tabs_all b = Inr ts \<and>
      list_all (\<lambda>t. \<not> isPayTrackerTab t) ts \<and>
      usableId (lastOption (filter isRegularTab ts)) = None
      \<longrightarrow> extractTransactionData b = Inl NoSuitableTab)"
  by (auto simp: extractTransactionData_def resolveTab_def find_None_all filter_none
        lastOption_def usableId_def)

theorem no_suitable_tab_is_an_error_witness:
  "extractTransactionData embeddedNoTab = Inl NoSuitableTab \<and>
   extractTransactionData detachedNoTab = Inl NoSuitableTab"
proof
  have "\<not> strIncludes (location_search embeddedNoTab) ''detached=true''"
    "tabs_active_current embeddedNoTab = Inr []"
    "usableId (case [] :: tab list of [] \<Rightarrow> None | t # rest \<Rightarrow> Some t) = None"
    by (simp_all add: embeddedNoTab_def usableId_def)
  with no_suitable_tab_is_an_error [of embeddedNoTab "[]"]
  show "extractTransactionData embeddedNoTab = Inl NoSuitableTab" by blast
next
  define ts where "ts = [\<lparr> tab_id = Some (7::int),
      tab_url = Some ''chrome-extension://abcdefgh/index.html?detached=true'',
      tab_title = Some ''Transactions'' \<rparr>]"
  have "strIncludes (location_search detachedNoTab) ''detached=true''"
    "tabs_all detachedNoTab = Inr ts"
    by (simp_all add: detachedNoTab_def ts_def)
  moreover have "list_all (\<lambda>t. \<not> isPayTrackerTab t) ts" "list_all (\<lambda>t. \<not> isRegularTab t) ts"
    unfolding ts_def by code_simp+
  ultimately show "extractTransactionData detachedNoTab = Inl NoSuitableTab"
    using no_suitable_tab_is_an_error [of detachedNoTab ts] by blast
qed

section \<open>Properties of the cache\<close>

subsection \<open>The memory tier\<close>

lemma cleanup_fields [simp]:
  "ttl (cleanupMemoryCache e st) = ttl st"
  "maxEntries (cleanupMemoryCache e st) = maxEntries st"
  "enableCompression (cleanupMemoryCache e st) = enableCompression st"
  "storage (cleanupMemoryCache e st) = storage st"
  "heap (cleanupMemoryCache e st) = heap st"
  "heapNext (cleanupMemoryCache e st) = heapNext st"
  by (simp_all add: cleanupMemoryCache_def Let_def)

lemma effectiveMaxEntries_pos: "0 < effectiveMaxEntries st"
  by (simp add: effectiveMaxEntries_def maxMemoryEntries_def)

lemma transactionCache_ttl: "effectiveTTL (transactionCache sto h n) = 600000"
  by (simp add: transactionCache_def newTransactionCache_def effectiveTTL_def defaultTTL_def)

lemma distinct_keys_sort:
  "distinct (map fst (sort_key f xs)) = distinct (map fst xs)"
  by (simp add: distinct_map)

lemma delete_present_length:
  "distinct (map fst m) \<Longrightarrow> k \<in> fst ` set m \<Longrightarrow> Suc (length (AList.delete k m)) = length m"
proof (induction m)
  case Nil
  then show ?case by simp
next
  case (Cons p m)
  show ?case
  proof (cases "fst p = k")
    case True
    with Cons.prems have "k \<notin> fst ` set m" by auto
    then have "AList.delete k m = m" by (rule AList.delete_id)
    with True show ?thesis by (cases p) simp
  next
    case False
    with Cons show ?thesis by (cases p) auto
  qed
qed

lemma length_deleteKeys:
  "distinct (map fst m) \<Longrightarrow> distinct ks \<Longrightarrow> set ks \<subseteq> fst ` set m \<Longrightarrow>
     length (deleteKeys ks m) = length m - length ks"
proof (induction ks arbitrary: m)
  case Nil
  then show ?case by (simp add: deleteKeys_def)
next
  case (Cons k ks)
  have d: "distinct (map fst (AList.delete k m))"
    using Cons.prems(1) by (rule distinct_delete)
  have sub: "set ks \<subseteq> fst ` set (AList.delete k m)"
    using Cons.prems(2,3) by (auto simp: AList.delete_eq) force
  have "length (deleteKeys ks (AList.delete k m)) = length (AList.delete k m) - length ks"
    using Cons.IH [OF d _ sub] Cons.prems(2) by simp
  moreover have "Suc (length (AList.delete k m)) = length m"
    using Cons.prems by (intro delete_present_length) auto
  ultimately show ?case by (simp add: deleteKeys_def)
qed

lemma set_deleteKeys_subset: "set (deleteKeys ks m) \<subseteq> set m"
proof (induction ks arbitrary: m)
  case Nil
  then show ?case by (simp add: deleteKeys_def)
next
  case (Cons k ks)
  have "set (deleteKeys ks (AList.delete k m)) \<subseteq> set (AList.delete k m)"
    by (rule Cons.IH)
  also have "\<dots> \<subseteq> set m" by (auto simp: AList.delete_eq)
  finally show ?case by (simp add: deleteKeys_def)
qed

lemma cleanupMemoryCache_size:
  assumes d: "distinct (map fst (memoryCache st))"
  shows "length (memoryCache (cleanupMemoryCache e st)) \<le> effectiveMaxEntries st"
proof -
  define kept where "kept = filter (\<lambda>(k, entry). \<not> isExpired e st entry) (memoryCache st)"
  define sorted where "sorted = sort_key (\<lambda>(k, entry). timestamp entry) kept"
  define n where "n = length kept - effectiveMaxEntries st"
  have dk: "distinct (map fst kept)"
    unfolding kept_def using d by (rule distinct_map_filter)
  show ?thesis
  proof (cases "effectiveMaxEntries st < length kept")
    case False
    then show ?thesis by (simp add: cleanupMemoryCache_def Let_def kept_def)
  next
    case True
    have ds: "distinct (map fst (take n sorted))"
      using dk by (simp add: sorted_def distinct_keys_sort take_map [symmetric])
    have sub: "set (map fst (take n sorted)) \<subseteq> fst ` set kept"
      using set_take_subset [of n sorted] by (auto simp: sorted_def)
    have "length (deleteKeys (map fst (take n sorted)) kept) = length kept - length (take n sorted)"
      using length_deleteKeys [OF dk ds sub] by simp
    also have "\<dots> = effectiveMaxEntries st"
      using True by (simp add: n_def sorted_def)
    finally show ?thesis
      using True by (simp add: cleanupMemoryCache_def Let_def kept_def sorted_def n_def)
  qed
qed

lemma cleanupMemoryCache_unexpired:
  assumes "(k, entry) \<in> set (memoryCache (cleanupMemoryCache e st))"
  shows "\<not> isExpired e st entry"
proof -
  let ?kept = "filter (\<lambda>(k, entry). \<not> isExpired e st entry) (memoryCache st)"
  have "set (memoryCache (cleanupMemoryCache e st)) \<subseteq> set ?kept"
    using set_deleteKeys_subset [of _ ?kept]
    by (auto simp: cleanupMemoryCache_def Let_def)
  with assms have "(k, entry) \<in> set ?kept" by blast
  then show ?thesis by simp
qed

lemma set_cache_memory:
  "memoryCache (set_cache e st a u) =
     memoryCache (cleanupMemoryCache e
        (st\<lparr> heap := (heap st)(heapNext st := heap st a), heapNext := Suc (heapNext st),
             memoryCache := AList.update (keyForSet e st a u) (entryForSet e st a u)
               (memoryCache st) \<rparr>))"
  by (simp add: set_cache_def Let_def keyForSet_def entryForSet_def)

lemma set_cache_size:
  assumes "distinct (map fst (memoryCache st))"
  shows "length (memoryCache (set_cache e st a u)) \<le> effectiveMaxEntries st"
proof -
  let ?st1 = "st\<lparr> heap := (heap st)(heapNext st := heap st a), heapNext := Suc (heapNext st),
             memoryCache := AList.update (keyForSet e st a u) (entryForSet e st a u)
               (memoryCache st) \<rparr>"
  have "distinct (map fst (memoryCache ?st1))"
    using assms by (simp add: distinct_update)
  then have "length (memoryCache (cleanupMemoryCache e ?st1)) \<le> effectiveMaxEntries ?st1"
    by (rule cleanupMemoryCache_size)
  moreover have "effectiveMaxEntries ?st1 = effectiveMaxEntries st"
    by (simp add: effectiveMaxEntries_def)
  ultimately show ?thesis
    by (simp only: set_cache_memory)
qed

lemma delete_eq_remove1:
  "distinct (map fst m) \<Longrightarrow> (k, v) \<in> set m \<Longrightarrow> AList.delete k m = remove1 (k, v) m"
proof (induction m)
  case Nil
  then show ?case by simp
next
  case (Cons p m)
  show ?case
  proof (cases "p = (k, v)")
    case True
    with Cons.prems have "k \<notin> fst ` set m" by auto
    then have "AList.delete k m = m" by (rule AList.delete_id)
    with True show ?thesis by simp
  next
    case False
    with Cons.prems have in_m: "(k, v) \<in> set m" by auto
    with Cons.prems have "fst p \<noteq> k" by (cases p) force
    with Cons in_m False show ?thesis by (cases p) auto
  qed
qed

lemma update_new_key: "k \<notin> fst ` set m \<Longrightarrow> AList.update k v m = m @ [(k, v)]"
  by (induction m) auto

lemma update_member: "(k, v) \<in> set (AList.update k v m)"
  by (induction m) auto

lemma hd_sort_key_in: "xs \<noteq> [] \<Longrightarrow> hd (sort_key f xs) \<in> set xs"
proof -
  assume "xs \<noteq> []"
  then have "sort_key f xs \<noteq> []" by (metis length_0_conv length_sort)
  then have "hd (sort_key f xs) \<in> set (sort_key f xs)" by (rule hd_in_set)
  then show ?thesis by simp
qed

lemma hd_sort_key_least:
  fixes f :: "'a \<Rightarrow> int"
  assumes "x \<in> set xs"
  shows "f (hd (sort_key f xs)) \<le> f x"
proof -
  from assms have x: "x \<in> set (sort_key f xs)" by simp
  have s: "sorted (map f (sort_key f xs))" by (rule sorted_sort_key)
  from x obtain y ys where ys: "sort_key f xs = y # ys" by (cases "sort_key f xs") auto
  with s x show ?thesis by auto
qed

lemma hd_sort_key_first:
  fixes f :: "'a \<Rightarrow> int"
  assumes "xs \<noteq> []"
  shows "hd (sort_key f xs) = hd (filter (\<lambda>y. f y = f (hd (sort_key f xs))) xs)"
proof -
  from assms have "sort_key f xs \<noteq> []" by (metis length_0_conv length_sort)
  then obtain y ys where ys: "sort_key f xs = y # ys" by (cases "sort_key f xs") auto
  have "filter (\<lambda>z. f z = f y) (sort_key f xs) = filter (\<lambda>z. f z = f y) xs"
    by (rule sort_key_stable)
  with ys have "y # filter (\<lambda>z. f z = f y) ys = filter (\<lambda>z. f z = f y) xs" by simp
  then have "hd (filter (\<lambda>z. f z = f y) xs) = y" by (metis list.sel(1))
  with ys show ?thesis by simp
qed

lemma cleanupMemoryCache_evicts_one:
  assumes d: "distinct (map fst (memoryCache st))"
    and fresh: "list_all (\<lambda>(k, entry). \<not> isExpired e st entry) (memoryCache st)"
    and len: "length (memoryCache st) = Suc (effectiveMaxEntries st)"
  shows "memoryCache (cleanupMemoryCache e st) =
           remove1 (hd (sort_key (\<lambda>(k, entry). timestamp entry) (memoryCache st))) (memoryCache st)"
proof -
  let ?m = "memoryCache st"
  let ?sorted = "sort_key (\<lambda>(k, entry). timestamp entry) ?m"
  have kept: "filter (\<lambda>(k, entry). \<not> isExpired e st entry) ?m = ?m"
    using fresh by (simp add: list_all_iff filter_id_conv)
  from len have ne: "?m \<noteq> []" by auto
  then have sne: "?sorted \<noteq> []" by (metis length_0_conv length_sort)
  then have t1: "take (Suc 0) ?sorted = [hd ?sorted]" by (cases ?sorted) auto
  from ne have vin: "hd ?sorted \<in> set ?m" by (rule hd_sort_key_in)
  have "AList.delete (fst (hd ?sorted)) ?m = remove1 (hd ?sorted) ?m"
    using delete_eq_remove1 [OF d, of "fst (hd ?sorted)" "snd (hd ?sorted)"] vin by simp
  then show ?thesis
    using len by (simp add: cleanupMemoryCache_def Let_def kept t1 deleteKeys_def)
qed


text \<open>The keys of the memory tier stay distinct.\<close>

lemma deleteKeys_distinct: "distinct (map fst m) \<Longrightarrow> distinct (map fst (deleteKeys ks m))"
proof (induction ks arbitrary: m)
  case Nil
  then show ?case by (simp add: deleteKeys_def)
next
  case (Cons k ks)
  from Cons.prems have "distinct (map fst (AList.delete k m))" by (rule distinct_delete)
  then have "distinct (map fst (deleteKeys ks (AList.delete k m)))" by (rule Cons.IH)
  then show ?case by (simp add: deleteKeys_def)
qed

lemma cleanupMemoryCache_distinct:
  "distinct (map fst (memoryCache st)) \<Longrightarrow>
     distinct (map fst (memoryCache (cleanupMemoryCache e st)))"
  by (simp add: cleanupMemoryCache_def Let_def deleteKeys_distinct distinct_map_filter)

lemma set_cache_distinct:
  assumes "distinct (map fst (memoryCache st))"
  shows "distinct (map fst (memoryCache (set_cache e st a u)))"
  unfolding set_cache_memory
  using assms by (intro cleanupMemoryCache_distinct) (simp add: distinct_update)

lemma getFromStorage_distinct:
  "distinct (map fst (memoryCache st)) \<Longrightarrow>
     distinct (map fst (memoryCache (snd (getFromStorage e st urlArg cur keys))))"
  by (induction keys)
     (auto simp: Let_def distinct_update split: option.splits prod.splits simp del: AList.update.simps)

lemma get_cache_distinct:
  "distinct (map fst (memoryCache st)) \<Longrightarrow>
     distinct (map fst (memoryCache (snd (get_cache e st urlArg))))"
  by (auto simp: get_cache_def Let_def getFromStorage_distinct split: option.splits prod.splits)

lemma cleanupKey_memory: "memoryCache (cleanupKey e st key) = memoryCache st"
  by (simp add: cleanupKey_def removeStorage_def split: option.splits prod.splits)

lemma foldl_cleanupKey_memory: "memoryCache (foldl (cleanupKey e) st keys) = memoryCache st"
  by (induction keys arbitrary: st) (simp_all add: cleanupKey_memory)

lemma cleanup_distinct:
  "distinct (map fst (memoryCache st)) \<Longrightarrow> distinct (map fst (memoryCache (cleanup e st)))"
  by (simp add: cleanup_def Let_def foldl_cleanupKey_memory cleanupMemoryCache_distinct)

lemma cleanup_memory_unexpired:
  "(k, entry) \<in> set (memoryCache (cleanup e st)) \<Longrightarrow> \<not> isExpired e st entry"
  by (simp add: cleanup_def Let_def foldl_cleanupKey_memory cleanupMemoryCache_unexpired)

subsection \<open>Writes that fill the memory tier\<close>

lemma set_cache_fields [simp]:
  "ttl (set_cache e st a u) = ttl st"
  "maxEntries (set_cache e st a u) = maxEntries st"
  "enableCompression (set_cache e st a u) = enableCompression st"
  "heapNext (set_cache e st a u) = Suc (heapNext st)"
  "heap (set_cache e st a u) = (heap st)(heapNext st := heap st a)"
  by (simp_all add: set_cache_def Let_def)

lemma set_cache_effective [simp]:
  "effectiveTTL (set_cache e st a u) = effectiveTTL st"
  "effectiveMaxEntries (set_cache e st a u) = effectiveMaxEntries st"
  by (simp_all add: effectiveTTL_def effectiveMaxEntries_def)

lemma set_cache_appends:
  assumes d: "distinct (map fst (memoryCache st))"
    and new: "keyForSet e st a u \<notin> fst ` set (memoryCache st)"
    and fresh: "list_all (\<lambda>(k, entry). \<not> isExpired e st entry) (memoryCache st)"
    and fresh': "\<not> isExpired e st (entryForSet e st a u)"
    and room: "length (memoryCache st) < effectiveMaxEntries st"
  shows "memoryCache (set_cache e st a u) =
           memoryCache st @ [(keyForSet e st a u, entryForSet e st a u)]"
proof -
  let ?written = "memoryCache st @ [(keyForSet e st a u, entryForSet e st a u)]"
  let ?st1 = "st\<lparr> heap := (heap st)(heapNext st := heap st a), heapNext := Suc (heapNext st),
             memoryCache := AList.update (keyForSet e st a u) (entryForSet e st a u)
               (memoryCache st) \<rparr>"
  have m1: "memoryCache ?st1 = ?written"
    using new by (simp add: update_new_key)
  have ex: "isExpired e ?st1 = isExpired e st"
    by (simp add: fun_eq_iff isExpired_def expiredAt_def effectiveTTL_def)
  have mx: "effectiveMaxEntries ?st1 = effectiveMaxEntries st"
    by (simp add: effectiveMaxEntries_def)
  have kept: "filter (\<lambda>(k, entry). \<not> isExpired e st entry) ?written = ?written"
    using fresh fresh' by (simp add: list_all_iff filter_id_conv)
  show ?thesis
    unfolding set_cache_memory cleanupMemoryCache_def Let_def m1 ex mx kept
    using room by simp
qed

lemma writtenWithin_append:
  "writtenWithin t (xs @ ys) \<longleftrightarrow>
     writtenWithin t xs \<and> writtenWithin t ys \<and> (\<forall>x\<in>set xs. \<forall>y\<in>set ys. y - x \<le> t)"
  by (induction xs) (auto simp: list_all_iff)

lemma keyForSet_heap:
  "heap st' a = heap st a \<Longrightarrow> keyForSet e st' a u = keyForSet e st a u"
  by (simp add: keyForSet_def)

lemma keyTime_pair [simp]: "keyTime (k, entry) = (k, timestamp entry)"
  by (simp add: keyTime_def)

lemma writeKey_heap:
  "heap st' (writeRef w) = heap st (writeRef w) \<Longrightarrow> writeKey st' w = writeKey st w"
  by (cases w) (simp add: writeKey_def writeRef_def keyForSet_def)

lemma set_all_appends:
  assumes "distinct (map fst (memoryCache st) @ map (writeKey st) ws)"
    and "writtenWithin (effectiveTTL st)
           (map (\<lambda>p. timestamp (snd p)) (memoryCache st) @ map writeStamp ws)"
    and "0 \<le> effectiveTTL st"
    and "list_all (\<lambda>w. writeRef w < heapNext st) ws"
    and "length (memoryCache st) + length ws \<le> effectiveMaxEntries st"
  shows "map keyTime (memoryCache (set_all st ws)) =
           map keyTime (memoryCache st) @ map (\<lambda>w. (writeKey st w, writeStamp w)) ws
         \<and> effectiveTTL (set_all st ws) = effectiveTTL st
         \<and> effectiveMaxEntries (set_all st ws) = effectiveMaxEntries st
         \<and> heapNext st \<le> heapNext (set_all st ws)
         \<and> (\<forall>a < heapNext st. heap (set_all st ws) a = heap st a)"
  using assms
proof (induction ws arbitrary: st)
  case Nil
  then show ?case by simp
next
  case (Cons w ws)
  obtain e a u where w: "w = (e, a, u)" by (cases w)
  let ?st1 = "set_cache e st a u"
  let ?k = "keyForSet e st a u"
  have wk: "writeKey st w = ?k" "writeStamp w = date_now e" "writeRef w = a"
    by (simp_all add: w writeKey_def writeStamp_def writeRef_def)
  have d: "distinct (map fst (memoryCache st))" and new: "?k \<notin> fst ` set (memoryCache st)"
    using Cons.prems(1) by (auto simp: wk)
  have ww: "writtenWithin (effectiveTTL st)
      (map (\<lambda>p. timestamp (snd p)) (memoryCache st) @ date_now e # map writeStamp ws)"
    using Cons.prems(2) by (simp add: wk)
  have fresh: "list_all (\<lambda>(k, entry). \<not> isExpired e st entry) (memoryCache st)"
    using ww by (auto simp: writtenWithin_append list_all_iff isExpired_def expiredAt_def)
  have fresh': "\<not> isExpired e st (entryForSet e st a u)"
    using Cons.prems(3) by (simp add: isExpired_def expiredAt_def entryForSet_def)
  have room: "length (memoryCache st) < effectiveMaxEntries st"
    using Cons.prems(5) by simp
  have m1: "memoryCache ?st1 = memoryCache st @ [(?k, entryForSet e st a u)]"
    using d new fresh fresh' room by (rule set_cache_appends)
  have a: "a < heapNext st" and as: "list_all (\<lambda>w. writeRef w < heapNext st) ws"
    using Cons.prems(4) by (simp_all add: wk)
  have keys: "map (writeKey ?st1) ws = map (writeKey st) ws"
    using as by (auto simp: list_all_iff intro!: writeKey_heap)
  have p1: "distinct (map fst (memoryCache ?st1) @ map (writeKey ?st1) ws)"
    using Cons.prems(1) unfolding keys m1 by (auto simp: wk)
  have p2: "writtenWithin (effectiveTTL ?st1)
      (map (\<lambda>p. timestamp (snd p)) (memoryCache ?st1) @ map writeStamp ws)"
    using ww unfolding m1 by (simp add: entryForSet_def)
  have p3: "0 \<le> effectiveTTL ?st1" using Cons.prems(3) by simp
  have p4: "list_all (\<lambda>w. writeRef w < heapNext ?st1) ws"
    using as by (auto simp: list_all_iff)
  have p5: "length (memoryCache ?st1) + length ws \<le> effectiveMaxEntries ?st1"
    using Cons.prems(5) by (simp add: m1)
  note IH = Cons.IH [OF p1 p2 p3 p4 p5]
  have s: "set_all st (w # ws) = set_all ?st1 ws" by (simp add: w)
  have "map keyTime (memoryCache (set_all st (w # ws))) =
      map keyTime (memoryCache st) @ map (\<lambda>w. (writeKey st w, writeStamp w)) (w # ws)"
  proof -
    have "map (\<lambda>w. (writeKey ?st1 w, writeStamp w)) ws = map (\<lambda>w. (writeKey st w, writeStamp w)) ws"
      using as by (auto simp: list_all_iff intro!: writeKey_heap)
    with IH show ?thesis
      unfolding s by (simp add: m1 wk entryForSet_def)
  qed
  moreover have "\<forall>a' < heapNext st. heap (set_all st (w # ws)) a' = heap st a'"
    using IH unfolding s by simp
  moreover have "heapNext st \<le> heapNext (set_all st (w # ws))"
    using IH unfolding s by simp
  ultimately show ?case using IH unfolding s by simp
qed



lemma set_cache_evicts_oldest:
  assumes d: "distinct (map fst (memoryCache st))"
    and full: "length (memoryCache st) = effectiveMaxEntries st"
    and new: "keyForSet e st a u \<notin> fst ` set (memoryCache st)"
    and fresh: "list_all (\<lambda>(k, entry). \<not> isExpired e st entry) (memoryCache st)"
    and fresh': "\<not> isExpired e st (entryForSet e st a u)"
  shows "memoryCache (set_cache e st a u) =
           remove1 (hd (sort_key (\<lambda>(k, entry). timestamp entry)
                          (memoryCache st @ [(keyForSet e st a u, entryForSet e st a u)])))
                   (memoryCache st @ [(keyForSet e st a u, entryForSet e st a u)])"
proof -
  let ?written = "memoryCache st @ [(keyForSet e st a u, entryForSet e st a u)]"
  let ?st1 = "st\<lparr> heap := (heap st)(heapNext st := heap st a), heapNext := Suc (heapNext st),
             memoryCache := AList.update (keyForSet e st a u) (entryForSet e st a u)
               (memoryCache st) \<rparr>"
  have m1: "memoryCache ?st1 = ?written"
    using new by (simp add: update_new_key)
  have ex: "isExpired e ?st1 = isExpired e st"
    by (simp add: fun_eq_iff isExpired_def expiredAt_def effectiveTTL_def)
  have mx: "effectiveMaxEntries ?st1 = effectiveMaxEntries st"
    by (simp add: effectiveMaxEntries_def)
  have d1: "distinct (map fst (memoryCache ?st1))"
    using d by (simp add: distinct_update)
  have f1: "list_all (\<lambda>(k, entry). \<not> isExpired e ?st1 entry) (memoryCache ?st1)"
    unfolding m1 ex using fresh fresh' by simp
  have l1: "length (memoryCache ?st1) = Suc (effectiveMaxEntries ?st1)"
    unfolding m1 mx using full by simp
  show ?thesis
    using cleanupMemoryCache_evicts_one [OF d1 f1 l1]
    unfolding set_cache_memory m1 .
qed

lemma set_all_snoc: "set_all st (ws @ [(e, a, u)]) = set_cache e (set_all st ws) a u"
  by (induction st ws rule: set_all.induct) simp_all

lemma insort_key_map:
  "insort_key f (g x) (map g xs) = map g (insort_key (\<lambda>y. f (g y)) x xs)"
  by (induction xs) auto

lemma sort_key_map: "sort_key f (map g xs) = map g (sort_key (\<lambda>y. f (g y)) xs)"
  by (induction xs) (simp_all add: insort_key_map)

lemma map_remove1_inj:
  "inj_on f (set xs) \<Longrightarrow> x \<in> set xs \<Longrightarrow> map f (remove1 x xs) = remove1 (f x) (map f xs)"
proof (induction xs)
  case Nil
  then show ?case by simp
next
  case (Cons y ys)
  show ?case
  proof (cases "y = x")
    case True
    then show ?thesis by simp
  next
    case False
    with Cons.prems have xin: "x \<in> set ys" by simp
    from Cons.prems False have "f y \<noteq> f x" by (auto simp: inj_on_def)
    moreover from Cons.prems have "inj_on f (set ys)" by (simp add: inj_on_def)
    ultimately show ?thesis using Cons.IH xin False by simp
  qed
qed

lemma keyTime_inj: "distinct (map fst m) \<Longrightarrow> inj_on keyTime (set m)"
  by (auto simp: distinct_map inj_on_def keyTime_def)

lemma timestamp_keyTime: "(\<lambda>(k, entry). timestamp entry) = (\<lambda>p. snd (keyTime p))"
  by (auto simp: fun_eq_iff keyTime_def)

lemma fst_keyTime: "map fst m = map fst (map keyTime m)"
  by (simp add: keyTime_def)

lemma snd_keyTime: "map (\<lambda>p. timestamp (snd p)) m = map snd (map keyTime m)"
  by (simp add: keyTime_def)

lemma set_all_evicts_oldest:
  assumes empty: "memoryCache st = []"
    and len: "length ws = Suc (effectiveMaxEntries st)"
    and dist: "distinct (map (writeKey st) ws)"
    and within: "writtenWithin (effectiveTTL st) (map writeStamp ws)"
    and ttl0: "0 \<le> effectiveTTL st"
    and refs: "list_all (\<lambda>w. writeRef w < heapNext st) ws"
  shows "map keyTime (memoryCache (set_all st ws)) =
           remove1 (hd (sort_key snd (map (\<lambda>w. (writeKey st w, writeStamp w)) ws)))
                   (map (\<lambda>w. (writeKey st w, writeStamp w)) ws)"
proof -
  from len obtain ws' w where ws: "ws = ws' @ [w]" and len': "length ws' = effectiveMaxEntries st"
    by (cases ws rule: rev_cases) auto
  obtain e a u where w: "w = (e, a, u)" by (cases w)
  let ?kt = "\<lambda>w. (writeKey st w, writeStamp w)"
  let ?stM = "set_all st ws'"
  have wk: "writeKey st w = keyForSet e st a u" "writeStamp w = date_now e" "writeRef w = a"
    by (simp_all add: w writeKey_def writeStamp_def writeRef_def)
  have pre: "map keyTime (memoryCache ?stM) = map ?kt ws'
         \<and> effectiveTTL ?stM = effectiveTTL st
         \<and> effectiveMaxEntries ?stM = effectiveMaxEntries st
         \<and> heapNext st \<le> heapNext ?stM
         \<and> (\<forall>a < heapNext st. heap ?stM a = heap st a)"
    using set_all_appends [of st ws'] dist within ttl0 refs len'
    by (simp add: empty ws writtenWithin_append)
  then have kts: "map keyTime (memoryCache ?stM) = map ?kt ws'"
    and tt: "effectiveTTL ?stM = effectiveTTL st"
    and mx: "effectiveMaxEntries ?stM = effectiveMaxEntries st"
    and hp: "\<forall>a < heapNext st. heap ?stM a = heap st a"
    by simp_all
  have a: "a < heapNext st" using refs by (simp add: ws wk)
  have key: "keyForSet e ?stM a u = keyForSet e st a u"
    using hp a by (simp add: keyForSet_def)
  have keysM: "map fst (memoryCache ?stM) = map (writeKey st) ws'"
    using kts by (simp add: fst_keyTime [of "memoryCache ?stM"] o_def)
  have timesM: "map (\<lambda>p. timestamp (snd p)) (memoryCache ?stM) = map writeStamp ws'"
    using kts by (simp add: snd_keyTime [of "memoryCache ?stM"] o_def)
  have d: "distinct (map fst (memoryCache ?stM))"
    using dist by (simp add: keysM ws)
  have full: "length (memoryCache ?stM) = effectiveMaxEntries ?stM"
    using len' kts mx by (metis length_map)
  have new: "keyForSet e ?stM a u \<notin> fst ` set (memoryCache ?stM)"
  proof -
    have "fst ` set (memoryCache ?stM) = set (map (writeKey st) ws')"
      using keysM by (metis set_map)
    then show ?thesis using dist by (simp add: key ws wk)
  qed
  have fresh: "list_all (\<lambda>(k, entry). \<not> isExpired e ?stM entry) (memoryCache ?stM)"
  proof -
    have "\<forall>t \<in> set (map writeStamp ws'). date_now e - t \<le> effectiveTTL st"
      using within by (simp add: ws writtenWithin_append wk)
    then have "\<forall>p \<in> set (memoryCache ?stM). date_now e - timestamp (snd p) \<le> effectiveTTL st"
      unfolding timesM [symmetric] by simp
    then show ?thesis
      by (auto simp: list_all_iff isExpired_def expiredAt_def tt)
  qed
  have fresh': "\<not> isExpired e ?stM (entryForSet e ?stM a u)"
    using ttl0 by (simp add: isExpired_def expiredAt_def entryForSet_def tt)
  let ?W = "memoryCache ?stM @ [(keyForSet e ?stM a u, entryForSet e ?stM a u)]"
  let ?v = "hd (sort_key (\<lambda>(k, entry). timestamp entry) ?W)"
  have step: "memoryCache (set_cache e ?stM a u) = remove1 ?v ?W"
    using d full new fresh fresh' by (rule set_cache_evicts_oldest)
  have dW: "distinct (map fst ?W)" using d new by simp
  have vin: "?v \<in> set ?W" by (rule hd_sort_key_in) simp
  have W: "map keyTime ?W = map ?kt ws"
    by (simp add: kts ws wk key entryForSet_def)
  have "map keyTime (remove1 ?v ?W) = remove1 (keyTime ?v) (map keyTime ?W)"
    using keyTime_inj [OF dW] vin by (rule map_remove1_inj)
  moreover have "keyTime ?v = hd (sort_key snd (map keyTime ?W))"
  proof -
    have "sort_key (\<lambda>(k, entry). timestamp entry) ?W \<noteq> []"
      by (metis length_0_conv length_sort snoc_eq_iff_butlast)
    then show ?thesis
      unfolding sort_key_map timestamp_keyTime by (simp add: hd_map)
  qed
  ultimately show ?thesis
    unfolding ws w set_all_snoc step W [unfolded ws w] by simp
qed

text \<open>
  Claim C7. The memory tier is the \<open>Map\<close> of the source, so its keys are distinct.
  After every \<open>set\<close> it holds at most \<open>maxEntries\<close> entries. When it holds exactly
  \<open>maxEntries\<close> entries, none of them expired, and \<open>set\<close> writes an entry under a new
  key, it holds exactly \<open>maxEntries\<close> entries afterwards: the old ones and the new
  one, in their order, without one entry, the victim. The victim has the least time
  stamp of all, and among the entries of that time stamp it is the one written first.
  So \<open>maxEntries + 1\<close> calls of \<open>set\<close> on an empty memory tier, with distinct keys and
  none of the entries expired at a later call, leave exactly \<open>maxEntries\<close> entries:
  all that were written but the victim.
\<close>

theorem memory_tier_cap:
  "(distinct (map fst (memoryCache st)) \<longrightarrow>
      length (memoryCache (set_cache e st a u)) \<le> effectiveMaxEntries st) \<and>
   (distinct (map fst (memoryCache st)) \<and>
    length (memoryCache st) = effectiveMaxEntries st \<and>
    keyForSet e st a u \<notin> fst ` set (memoryCache st) \<and>
    list_all (\<lambda>(k, entry). \<not> isExpired e st entry) (memoryCache st) \<and>
    \<not> isExpired e st (entryForSet e st a u) \<longrightarrow>
      (let written = memoryCache st @ [(keyForSet e st a u, entryForSet e st a u)];
           victim = hd (sort_key (\<lambda>(k, entry). timestamp entry) written)
       in memoryCache (set_cache e st a u) = remove1 victim written \<and>
          victim \<in> set written \<and>
          length (memoryCache (set_cache e st a u)) = effectiveMaxEntries st \<and>
          list_all (\<lambda>(k, entry). timestamp (snd victim) \<le> timestamp entry) written \<and>
          victim = hd (filter (\<lambda>(k, entry). timestamp entry = timestamp (snd victim)) written))) \<and>
   (memoryCache st = [] \<and>
    length ws = Suc (effectiveMaxEntries st) \<and>
    distinct (map (writeKey st) ws) \<and>
    writtenWithin (effectiveTTL st) (map writeStamp ws) \<and>
    0 \<le> effectiveTTL st \<and>
    list_all (\<lambda>w. writeRef w < heapNext st) ws \<longrightarrow>
      (let written = map (\<lambda>w. (writeKey st w, writeStamp w)) ws;
           victim = hd (sort_key snd written)
       in map keyTime (memoryCache (set_all st ws)) = remove1 victim written \<and>
          victim \<in> set written \<and>
          length (memoryCache (set_all st ws)) = effectiveMaxEntries st \<and>
          list_all (\<lambda>kt. snd victim \<le> snd kt) written \<and>
          victim = hd (filter (\<lambda>kt. snd kt = snd victim) written)))"
proof (intro conjI impI)
  assume "distinct (map fst (memoryCache st))"
  then show "length (memoryCache (set_cache e st a u)) \<le> effectiveMaxEntries st"
    by (rule set_cache_size)
next
  assume h: "distinct (map fst (memoryCache st)) \<and>
    length (memoryCache st) = effectiveMaxEntries st \<and>
    keyForSet e st a u \<notin> fst ` set (memoryCache st) \<and>
    list_all (\<lambda>(k, entry). \<not> isExpired e st entry) (memoryCache st) \<and>
    \<not> isExpired e st (entryForSet e st a u)"
  define written where "written = memoryCache st @ [(keyForSet e st a u, entryForSet e st a u)]"
  define victim where "victim = hd (sort_key (\<lambda>(k, entry). timestamp entry) written)"
  have r: "memoryCache (set_cache e st a u) = remove1 victim written"
    unfolding victim_def written_def using h by (intro set_cache_evicts_oldest) simp_all
  have wne: "written \<noteq> []" by (simp add: written_def)
  then have vin: "victim \<in> set written"
    unfolding victim_def by (rule hd_sort_key_in)
  have len: "length (memoryCache (set_cache e st a u)) = effectiveMaxEntries st"
    using h vin by (simp add: r length_remove1 written_def)
  have least: "list_all (\<lambda>(k, entry). timestamp (snd victim) \<le> timestamp entry) written"
  proof -
    have "\<And>x. x \<in> set written \<Longrightarrow>
        (\<lambda>(k, entry). timestamp entry) victim \<le> (\<lambda>(k, entry). timestamp entry) x"
      unfolding victim_def by (rule hd_sort_key_least)
    then show ?thesis by (auto simp: list_all_iff case_prod_beta)
  qed
  have first: "victim = hd (filter (\<lambda>(k, entry). timestamp entry = timestamp (snd victim)) written)"
  proof -
    have a: "victim = hd (filter (\<lambda>y. (\<lambda>(k, entry). timestamp entry) y =
              (\<lambda>(k, entry). timestamp entry) victim) written)"
      unfolding victim_def using wne by (rule hd_sort_key_first)
    have b: "(\<lambda>y. (\<lambda>(k, entry). timestamp entry) y = (\<lambda>(k, entry). timestamp entry) victim)
        = (\<lambda>(k, entry). timestamp entry = timestamp (snd victim))"
      by (auto simp: fun_eq_iff case_prod_beta)
    show ?thesis using a by (simp only: b)
  qed
  show "let written = memoryCache st @ [(keyForSet e st a u, entryForSet e st a u)];
           victim = hd (sort_key (\<lambda>(k, entry). timestamp entry) written)
       in memoryCache (set_cache e st a u) = remove1 victim written \<and>
          victim \<in> set written \<and>
          length (memoryCache (set_cache e st a u)) = effectiveMaxEntries st \<and>
          list_all (\<lambda>(k, entry). timestamp (snd victim) \<le> timestamp entry) written \<and>
          victim = hd (filter (\<lambda>(k, entry). timestamp entry = timestamp (snd victim)) written)"
    unfolding Let_def written_def [symmetric] victim_def [symmetric]
    using r vin len least first by blast
next
  assume h: "memoryCache st = [] \<and>
    length ws = Suc (effectiveMaxEntries st) \<and>
    distinct (map (writeKey st) ws) \<and>
    writtenWithin (effectiveTTL st) (map writeStamp ws) \<and>
    0 \<le> effectiveTTL st \<and>
    list_all (\<lambda>w. writeRef w < heapNext st) ws"
  define written where "written = map (\<lambda>w. (writeKey st w, writeStamp w)) ws"
  define victim where "victim = hd (sort_key snd written)"
  have r: "map keyTime (memoryCache (set_all st ws)) = remove1 victim written"
    unfolding victim_def written_def using h by (intro set_all_evicts_oldest) simp_all
  have wne: "written \<noteq> []" using h by (auto simp: written_def)
  then have vin: "victim \<in> set written"
    unfolding victim_def by (rule hd_sort_key_in)
  have "length (map keyTime (memoryCache (set_all st ws))) = length written - 1"
    using vin by (simp add: r length_remove1)
  then have len: "length (memoryCache (set_all st ws)) = effectiveMaxEntries st"
    using h by (simp add: written_def)
  have least: "list_all (\<lambda>kt. snd victim \<le> snd kt) written"
    unfolding victim_def list_all_iff by (auto intro: hd_sort_key_least)
  have first: "victim = hd (filter (\<lambda>kt. snd kt = snd victim) written)"
    unfolding victim_def using wne by (rule hd_sort_key_first)
  show "let written = map (\<lambda>w. (writeKey st w, writeStamp w)) ws;
           victim = hd (sort_key snd written)
       in map keyTime (memoryCache (set_all st ws)) = remove1 victim written \<and>
          victim \<in> set written \<and>
          length (memoryCache (set_all st ws)) = effectiveMaxEntries st \<and>
          list_all (\<lambda>kt. snd victim \<le> snd kt) written \<and>
          victim = hd (filter (\<lambda>kt. snd kt = snd victim) written)"
    unfolding Let_def written_def [symmetric] victim_def [symmetric]
    using r vin len least first by blast
qed

subsection \<open>What \<open>get\<close> returns\<close>

lemma getFromStorage_hit:
  "getFromStorage e st urlArg cur keys = (Some r, st') \<Longrightarrow>
     \<exists>k entry. (k, entry) \<in> set (memoryCache st') \<and> data entry = r \<and> \<not> isExpired e st' entry"
proof (induction keys)
  case Nil
  then show ?case by simp
next
  case (Cons key keys)
  show ?case
  proof (cases "getFromStorage e st urlArg cur (key # keys) = getFromStorage e st urlArg cur keys")
    case True
    with Cons show ?thesis by simp
  next
    case False
    with Cons.prems have "\<exists>d ts u h. \<not> expiredAt e st ts \<and> heapNext st = r \<and>
        st\<lparr> heap := (heap st)(heapNext st := d), heapNext := Suc (heapNext st),
            memoryCache := AList.update (replaceFirst (storageKey @ ''_'') [] key)
               \<lparr> data = heapNext st, timestamp = ts, url = u, hash = h \<rparr> (memoryCache st) \<rparr> = st'"
      by (fastforce simp: Let_def split: if_splits option.splits prod.splits)
    then obtain d ts u h where live: "\<not> expiredAt e st ts" and r: "r = heapNext st"
      and st': "st' = st\<lparr> heap := (heap st)(heapNext st := d), heapNext := Suc (heapNext st),
            memoryCache := AList.update (replaceFirst (storageKey @ ''_'') [] key)
               \<lparr> data = heapNext st, timestamp = ts, url = u, hash = h \<rparr> (memoryCache st) \<rparr>"
      by blast
    let ?entry = "\<lparr> data = heapNext st, timestamp = ts, url = u, hash = h \<rparr>"
    have "(replaceFirst (storageKey @ ''_'') [] key, ?entry) \<in> set (memoryCache st')"
      unfolding st' by (simp add: update_member)
    moreover have "\<not> isExpired e st' ?entry"
      using live unfolding st' by (auto simp: isExpired_def expiredAt_def effectiveTTL_def)
    ultimately show ?thesis using r by force
  qed
qed

text \<open>
  Whatever \<open>get\<close> returns is the data of an entry of the memory tier that is not
  expired by the time stamp it carries there. For an entry read back from the
  storage that is the time stamp of the decoded text.
\<close>

lemma get_cache_hit:
  assumes "get_cache e st urlArg = (Some r, st')"
  shows "\<exists>k entry. (k, entry) \<in> set (memoryCache st') \<and> data entry = r \<and> \<not> isExpired e st' entry"
proof (cases "List.find (\<lambda>(key, entry).
          urlMatches (url entry) (case truthy urlArg of Some u \<Rightarrow> u | None \<Rightarrow> getCurrentUrl e)
            (truthy urlArg) \<and> \<not> isExpired e st entry) (memoryCache st)")
  case None
  with assms show ?thesis
    by (auto simp: get_cache_def Let_def dest!: getFromStorage_hit)
next
  case (Some p)
  then obtain k entry where p: "p = (k, entry)" by (cases p)
  from Some p have "(k, entry) \<in> set (memoryCache st) \<and> \<not> isExpired e st entry"
    by (auto dest!: find_SomeD)
  moreover from Some p assms have "r = data entry" "st' = st"
    by (auto simp: get_cache_def Let_def)
  ultimately show ?thesis by blast
qed

text \<open>
  On an empty memory tier \<open>set(d, u)\<close> followed by \<open>get(u)\<close> within the time to live
  returns a new object with the content of \<open>d\<close>, and leaves the caller's object as it
  was.
\<close>

lemma set_then_get_on_empty_memory:
  assumes empty: "memoryCache st = []"
    and ttl0: "0 \<le> effectiveTTL st"
    and within: "date_now e' - date_now e \<le> effectiveTTL st"
    and a: "a < heapNext st"
  shows "fst (get_cache e' (set_cache e st a u) u) = Some (heapNext st) \<and>
         heapNext st \<noteq> a \<and>
         heap (set_cache e st a u) (heapNext st) = heap st a \<and>
         heap (set_cache e st a u) a = heap st a"
proof -
  let ?st' = "set_cache e st a u"
  let ?entry = "entryForSet e st a u"
  have fields: "ttl ?st' = ttl st" "heap ?st' = (heap st)(heapNext st := heap st a)"
    by (simp_all add: set_cache_def Let_def)
  have nexp: "\<not> isExpired e st ?entry"
    using ttl0 by (simp add: isExpired_def expiredAt_def entryForSet_def)
  let ?st1 = "st\<lparr> heap := (heap st)(heapNext st := heap st a), heapNext := Suc (heapNext st),
             memoryCache := AList.update (keyForSet e st a u) ?entry (memoryCache st) \<rparr>"
  have ex: "isExpired e ?st1 = isExpired e st"
    by (simp add: fun_eq_iff isExpired_def expiredAt_def effectiveTTL_def)
  have mx: "effectiveMaxEntries ?st1 = effectiveMaxEntries st"
    by (simp add: effectiveMaxEntries_def)
  have m1: "memoryCache ?st1 = [(keyForSet e st a u, ?entry)]"
    by (simp add: empty)
  have mem: "memoryCache ?st' = [(keyForSet e st a u, ?entry)]"
    unfolding set_cache_memory
    using nexp effectiveMaxEntries_pos [of st]
    by (simp add: cleanupMemoryCache_def Let_def m1 ex mx del: AList.update.simps)
  have live: "\<not> isExpired e' ?st' ?entry"
    using within by (auto simp: isExpired_def expiredAt_def effectiveTTL_def fields entryForSet_def)
  have match: "urlMatches (url ?entry)
      (case truthy u of Some x \<Rightarrow> x | None \<Rightarrow> getCurrentUrl e') (truthy u)"
    by (cases "truthy u") (simp_all add: urlMatches_def entryForSet_def urlForSet_def)
  have "fst (get_cache e' ?st' u) = Some (data ?entry)"
    using live match by (simp add: get_cache_def Let_def mem)
  then show ?thesis
    using a by (simp add: fields entryForSet_def)
qed

subsection \<open>Expiry\<close>

lemma isExpired_iff:
  "isExpired e st entry \<longleftrightarrow> date_now e - timestamp entry > effectiveTTL st"
  by (simp add: isExpired_def expiredAt_def)


subsection \<open>The scenario, evaluated\<close>

theorem memory_tier_cap_witness:
  "length (memoryCache (set_cache (exampleEnv (writeTime + 2000)) twoWrites 2 (Some exampleUrl)))
     \<le> effectiveMaxEntries twoWrites \<and>
   length (memoryCache (set_cache (exampleEnv (writeTime + 2000)) twoWrites 2 (Some exampleUrl)))
     = 2 \<and>
   map keyTime (memoryCache (set_all smallCache threeWrites)) =
     [(''/transactions_jn71hr'', 1797002234445), (''/transactions_hkq0c4'', 1797002235445)] \<and>
   length (memoryCache (set_all smallCache threeWrites)) = 2"
proof -
  let ?e = "exampleEnv (writeTime + 2000)"
  let ?u = "Some exampleUrl"
  have m: "memoryCache twoWrites =
      [(''/transactions_19mv3d'',
        \<lparr>data = 3, timestamp = 1797002233445, url = Some exampleUrl, hash = Some ''19mv3d''\<rparr>),
       (''/transactions_jn71hr'',
        \<lparr>data = 4, timestamp = 1797002234445, url = Some exampleUrl, hash = Some ''jn71hr''\<rparr>)]"
    unfolding twoWrites_def set_cache_memory by code_simp
  have cfg: "ttl twoWrites = 600000" "maxEntries twoWrites = 2"
    by (simp_all add: twoWrites_def smallCache_def newTransactionCache_def defaultTTL_def)
  have hp: "heap twoWrites 2 = [tx2]"
    by (simp add: twoWrites_def smallCache_def newTransactionCache_def exampleHeap_def)
  have k: "keyForSet ?e twoWrites 2 ?u = ''/transactions_hkq0c4''"
    unfolding keyForSet_def hp by code_simp
  have now: "date_now ?e = 1797002235445"
    by (simp add: exampleEnv_def writeTime_def)
  have h1: "distinct (map fst (memoryCache twoWrites))"
    by (simp add: m)
  have h2: "length (memoryCache twoWrites) = effectiveMaxEntries twoWrites"
    by (simp add: m cfg effectiveMaxEntries_def)
  have h3: "keyForSet ?e twoWrites 2 ?u \<notin> fst ` set (memoryCache twoWrites)"
    by (simp add: m k)
  have h4: "list_all (\<lambda>(k, entry). \<not> isExpired ?e twoWrites entry) (memoryCache twoWrites)"
    by (simp add: m isExpired_def expiredAt_def effectiveTTL_def cfg now)
  have h5: "\<not> isExpired ?e twoWrites (entryForSet ?e twoWrites 2 ?u)"
    by (simp add: entryForSet_def isExpired_def expiredAt_def effectiveTTL_def cfg)
  from memory_tier_cap [of twoWrites ?e 2 ?u] h1
  have A: "length (memoryCache (set_cache ?e twoWrites 2 ?u)) \<le> effectiveMaxEntries twoWrites"
    by blast
  from memory_tier_cap [of twoWrites ?e 2 ?u, THEN conjunct2, THEN conjunct1] h1 h2 h3 h4 h5
  have B: "length (memoryCache (set_cache ?e twoWrites 2 ?u)) = effectiveMaxEntries twoWrites"
    unfolding Let_def by blast
  have C: "effectiveMaxEntries twoWrites = 2"
    by (simp add: cfg effectiveMaxEntries_def)
  have cfg0: "effectiveTTL smallCache = 600000" "effectiveMaxEntries smallCache = 2"
    "memoryCache smallCache = []" "heapNext smallCache = 3"
    by (simp_all add: smallCache_def newTransactionCache_def effectiveTTL_def defaultTTL_def
        effectiveMaxEntries_def)
  have w: "map (\<lambda>w. (writeKey smallCache w, writeStamp w)) threeWrites =
      [(''/transactions_19mv3d'', 1797002233445), (''/transactions_jn71hr'', 1797002234445),
       (''/transactions_hkq0c4'', 1797002235445)]"
    by code_simp
  then have wkeys: "map (writeKey smallCache) threeWrites =
      [''/transactions_19mv3d'', ''/transactions_jn71hr'', ''/transactions_hkq0c4'']"
    and wstamps: "map writeStamp threeWrites = [1797002233445, 1797002234445, 1797002235445]"
    by (simp_all add: threeWrites_def)
  have g1: "length threeWrites = Suc (effectiveMaxEntries smallCache)"
    by (simp add: threeWrites_def cfg0)
  have g2: "distinct (map (writeKey smallCache) threeWrites)"
    by (simp add: wkeys)
  have g3: "writtenWithin (effectiveTTL smallCache) (map writeStamp threeWrites)"
    by (simp add: wstamps cfg0)
  have g4: "list_all (\<lambda>w. writeRef w < heapNext smallCache) threeWrites"
    by (simp add: threeWrites_def writeRef_def cfg0)
  from memory_tier_cap [of smallCache _ _ _ threeWrites, THEN conjunct2, THEN conjunct2]
    cfg0 g1 g2 g3 g4
  have "let written = map (\<lambda>w. (writeKey smallCache w, writeStamp w)) threeWrites;
            victim = hd (sort_key snd written)
        in map keyTime (memoryCache (set_all smallCache threeWrites)) = remove1 victim written \<and>
           victim \<in> set written \<and>
           length (memoryCache (set_all smallCache threeWrites)) = effectiveMaxEntries smallCache \<and>
           list_all (\<lambda>kt. snd victim \<le> snd kt) written \<and>
           victim = hd (filter (\<lambda>kt. snd kt = snd victim) written)"
    by simp
  then have D: "map keyTime (memoryCache (set_all smallCache threeWrites)) =
      [(''/transactions_jn71hr'', 1797002234445), (''/transactions_hkq0c4'', 1797002235445)]"
    and E: "length (memoryCache (set_all smallCache threeWrites)) = 2"
    unfolding w Let_def by (simp_all add: cfg0)
  from A B C D E show ?thesis by simp
qed

text \<open>
  Claim C5. \<open>set(d, u)\<close> followed at once by \<open>get(u)\<close> is stated to return a copy of
  \<open>d\<close>. The loop of \<open>get\<close> over the memory tier returns the first entry of the URL that
  is not expired, in the order of insertion; a second \<open>set\<close> for the same URL with
  other content writes under another key, behind the first. After
  \<open>set([tx1], exampleUrl)\<close> and, a minute later, \<open>set([tx1, tx2], exampleUrl)\<close>, the call
  \<open>get(exampleUrl)\<close> returns the object at the address 3, the copy of \<open>[tx1]\<close>, while
  the copy of the list just written is at the address 4.
\<close>

theorem get_after_set_returns_older_entry:
  "fst (get_cache (exampleEnv (writeTime + 60000)) staleState (Some exampleUrl)) = Some 3 \<and>
   heap staleState 3 = [tx1] \<and>
   heap staleState 1 = [tx1, tx2] \<and>
   heap staleState 4 = [tx1, tx2] \<and>
   map (\<lambda>(k, entry). (k, data entry, timestamp entry)) (memoryCache staleState) =
     [(''/transactions_19mv3d'', 3, 1797002233445),
      (''/transactions_jn71hr'', 4, 1797002293445)]"
  by code_simp


text \<open>
  Claim C6. An entry written at the time \<open>now - ttl - 1\<close> is stated not to be returned
  by \<open>get\<close> and to be removed from both tiers by \<open>cleanup\<close>. On the exported instance,
  which compresses, \<open>set([tx1])\<close> at the time 1797002233445 stores a text that
  \<open>decompress\<close> reads back with the time stamp 1777777777002233445. One millisecond
  after the entry has expired, \<open>get()\<close> passes over the entry of the memory tier and
  returns the data decoded from the storage (with the identifier that \<open>decompress\<close>
  made of \<open>EEP86556NRJ4C\<close>), and \<open>cleanup\<close> empties the memory tier and leaves both
  keys of the storage in place.
\<close>

theorem expired_entry_survives_in_storage:
  "expiredAt afterTTL writtenState writeTime \<and>
   map (\<lambda>(k, entry). timestamp entry) (memoryCache writtenState) = [writeTime] \<and>
   map fst (storage writtenState) =
     [''paytracker_cache_/transactions_19mv3d'', ''paytracker_cache_latest''] \<and>
   fst (get_cache afterTTL writtenState None) = Some 4 \<and>
   heap (snd (get_cache afterTTL writtenState None)) 4 =
     [tx1\<lparr>transactionId := ''EEP8'' @ replicate 55 CHR ''6'' @ ''NRJ4C''\<rparr>] \<and>
   memoryCache (cleanup afterTTL writtenState) = [] \<and>
   map fst (storage (cleanup afterTTL writtenState)) =
     [''paytracker_cache_/transactions_19mv3d'', ''paytracker_cache_latest'']"
proof (intro conjI)
  show "expiredAt afterTTL writtenState writeTime"
    by code_simp
  show "map (\<lambda>(k, entry). timestamp entry) (memoryCache writtenState) = [writeTime]"
    by code_simp
  show "map fst (storage writtenState) =
     [''paytracker_cache_/transactions_19mv3d'', ''paytracker_cache_latest'']"
    by code_simp
  show "fst (get_cache afterTTL writtenState None) = Some 4"
    by code_simp
  show "heap (snd (get_cache afterTTL writtenState None)) 4 =
     [tx1\<lparr>transactionId := ''EEP8'' @ replicate 55 CHR ''6'' @ ''NRJ4C''\<rparr>]"
    by code_simp
  show "memoryCache (cleanup afterTTL writtenState) = []"
    by code_simp
  show "map fst (storage (cleanup afterTTL writtenState)) =
     [''paytracker_cache_/transactions_19mv3d'', ''paytracker_cache_latest'']"
    by code_simp
qed

end
